theory Spec2Isabelle
  imports Main "HOL-Library.AList"
begin

section \<open>Values, errors and effects\<close>

text \<open>
  The hook of \<^verbatim>\<open>src/lib/index.js\<close> is a closure over one token cache
  (\<^verbatim>\<open>tokensByFile\<close>) that talks to Node (module resolution, the file
  system, the module loader), to lodash and to a postcss runner. The model below keeps
  the closure's own code and takes those collaborators as parameters.

  The value universe is the fragment of JavaScript the hook handles: the primitives,
  plain objects with string-named data properties, and host built-ins (functions and
  prototype objects, which only matter through their truthiness). Numbers are
  integers. An object carries the identity it was allocated with, so that two
  references are the same reference exactly when the values are equal.
\<close>

datatype jsval =
    Undefined
  | Null
  | Bool bool
  | Num int
  | Str string
  | Obj nat "(string \<times> jsval) list"
  | Builtin string

type_synonym props = "(string \<times> jsval) list"

text \<open>A property key is a string or a symbol (identity and description).\<close>

datatype key = Name string | Sym nat string

datatype error =
    ReferenceError string
  | TypeError string
  | ModuleNotFound string
  | FileNotFound string
  | TransformationError string
  | CallbackError string

text \<open>What the hook is seen to do, newest event first.\<close>

datatype event =
    FetchFromCache string
  | FetchFromFs string
  | FetchRequire string
  | DebugTokens jsval
  | ReadFile string
  | PreprocessCss string
  | Process string
  | ConsoleWarn string
  | ProcessCss string string
  | ProcessTokens string
  | ModuleCompile jsval string string

text \<open>
  The result of one run of the postcss runner on one file: the transformed text
  (\<^verbatim>\<open>lazyResult.css\<close>), the texts of its warnings, and the properties of
  the object the parser plugin left at \<^verbatim>\<open>lazyResult.root.tokens\<close>, in
  enumeration order.
\<close>

record lazy_result =
  css :: string
  messages :: "string list"
  root_tokens :: props

text \<open>
  The runner is handed \<^verbatim>\<open>fetch\<close> (line 76) and may call it any number
  of times before it returns or throws; an exception of a nested fetch is not caught.
\<close>

datatype pipe =
    Done lazy_result
  | Throw error
  | Fetch string string "jsval \<Rightarrow> pipe"

text \<open>The object handed to \<^verbatim>\<open>new Proxy\<close>: its own properties and its prototype.\<close>

record target =
  own :: "key \<rightharpoonup> jsval"
  tproto :: jsval

text \<open>An entry of the loader's \<^verbatim>\<open>require.cache\<close>: a module of the host, or a CSS proxy.\<close>

datatype cache_entry = HostModule jsval | CssProxy string target

record state =
  tokensByFile :: "string \<rightharpoonup> jsval"
  requireCache :: "string \<rightharpoonup> cache_entry"
  nextId :: nat
  trace :: "event list"

text \<open>
  Node, lodash and glob-to-regexp, as far as the hook calls them. \<open>inherited v k\<close> is
  what reading \<open>k\<close> on \<open>v\<close> yields when \<open>v\<close> has no own property \<open>k\<close> (a member
  found along the prototype chain, \<open>Undefined\<close> when there is none); \<open>globals\<close> are
  the properties of the global object.
\<close>

record host =
  require_resolve :: "string \<Rightarrow> error + string"
  path_resolve :: "string \<Rightarrow> string \<Rightarrow> string"
  dirname :: "string \<Rightarrow> string"
  readFileSync :: "string \<Rightarrow> error + string"
  inherited :: "jsval \<Rightarrow> key \<Rightarrow> jsval"
  globals :: "string \<rightharpoonup> jsval"
  NODE_ENV :: "string option"
  globToRegex_test :: "string \<Rightarrow> string \<Rightarrow> bool"
  camelCaseFunc :: "string \<Rightarrow> string"

datatype ignore_option =
    IgnoreRegExp "string \<Rightarrow> bool"
  | IgnoreGlob string
  | IgnoreFunction "string \<Rightarrow> jsval"
  | IgnoreUnset

text \<open>
  The options of \<^verbatim>\<open>setupHook\<close>. The plugin list (\<^verbatim>\<open>use\<close>,
  \<^verbatim>\<open>prepend\<close>, \<^verbatim>\<open>append\<close>, \<^verbatim>\<open>mode\<close>,
  \<^verbatim>\<open>generateScopedName\<close>, ...) and \<^verbatim>\<open>processorOpts\<close> only reach
  the code through \<^verbatim>\<open>runner.process\<close>, which \<open>runner\<close> stands for:
  source text and file name to the run. The callbacks are functions of their arguments
  that return or throw.
\<close>

record options =
  devMode :: "bool option"
  ignore :: ignore_option
  preprocessCss :: "(string \<Rightarrow> string \<Rightarrow> error + string) option"
  processCss :: "(string \<Rightarrow> string \<Rightarrow> error + unit) option"
  processTokens :: "(jsval \<Rightarrow> string \<Rightarrow> lazy_result \<Rightarrow> error + jsval) option"
  camelCase :: bool
  runner :: "string \<Rightarrow> string \<Rightarrow> pipe"

record env =
  node :: host
  opts :: options

section \<open>JavaScript primitives the hook relies on\<close>

fun truthy :: "jsval \<Rightarrow> bool" where
  "truthy Undefined = False"
| "truthy Null = False"
| "truthy (Bool b) = b"
| "truthy (Num n) = (n \<noteq> 0)"
| "truthy (Str s) = (s \<noteq> [])"
| "truthy (Obj i ps) = True"
| "truthy (Builtin f) = True"

fun is_object :: "jsval \<Rightarrow> bool" where
  "is_object (Obj i ps) = True"
| "is_object (Builtin f) = True"
| "is_object v = False"

fun own_lookup :: "jsval \<Rightarrow> key \<Rightarrow> jsval option" where
  "own_lookup (Obj i ps) (Name k) = map_of ps k"
| "own_lookup v k = None"

text \<open>\<^verbatim>\<open>v[name]\<close>: a TypeError on \<^verbatim>\<open>undefined\<close> and \<^verbatim>\<open>null\<close>.\<close>

definition get_prop :: "host \<Rightarrow> jsval \<Rightarrow> key \<Rightarrow> error + jsval" where
  "get_prop h v name =
     (if v = Undefined \<or> v = Null then Inl (TypeError ''Cannot read properties of undefined'')
      else case own_lookup v name of
             Some x \<Rightarrow> Inr x
           | None \<Rightarrow> Inr (inherited h v name))"

text \<open>
  \<^verbatim>\<open>target[name]\<close>. Without an own property the read goes to the prototype;
  \<^verbatim>\<open>__proto__\<close> is the accessor of \<^verbatim>\<open>Object.prototype\<close>, which
  answers with the prototype itself.
\<close>

definition target_get :: "host \<Rightarrow> target \<Rightarrow> key \<Rightarrow> jsval" where
  "target_get h t name =
     (case own t name of
        Some v \<Rightarrow> v
      | None \<Rightarrow>
          if tproto t = Null then Undefined
          else if name = Name ''__proto__'' then tproto t
          else case own_lookup (tproto t) name of
                 Some x \<Rightarrow> x
               | None \<Rightarrow> inherited h (tproto t) name)"

text \<open>
  \<^verbatim>\<open>target[name] = value\<close>. The inherited \<^verbatim>\<open>__proto__\<close> setter
  replaces the prototype when the value is an object or \<^verbatim>\<open>null\<close> and does
  nothing otherwise; every other assignment defines or updates an own property.
\<close>

definition target_put :: "target \<Rightarrow> key \<Rightarrow> jsval \<Rightarrow> target" where
  "target_put t name v =
     (if name = Name ''__proto__'' \<and> own t name = None \<and> tproto t \<noteq> Null
      then (if is_object v \<or> v = Null then t\<lparr>tproto := v\<rparr> else t)
      else t\<lparr>own := (own t)(name \<mapsto> v)\<rparr>)"

definition new_target :: target where
  "new_target = \<lparr>own = Map.empty, tproto = Builtin ''Object.prototype''\<rparr>"

text \<open>\<^verbatim>\<open>String(name)\<close> of a symbol.\<close>

definition symbol_to_String :: "string \<Rightarrow> string" where
  "symbol_to_String d = ''Symbol('' @ d @ '')''"

fun is_inspect_custom :: "key \<Rightarrow> bool" where
  "is_inspect_custom (Sym i d) = (symbol_to_String d = ''Symbol(util.inspect.custom)'')"
| "is_inspect_custom (Name k) = False"

definition emit :: "event \<Rightarrow> state \<Rightarrow> state" where
  "emit e s = s\<lparr>trace := e # trace s\<rparr>"

text \<open>lodash \<^verbatim>\<open>mapKeys\<close> and \<^verbatim>\<open>assign\<close> on property lists: both walk the
  source in enumeration order and assign key by key, so a later key overwrites.\<close>

definition mapKeys :: "props \<Rightarrow> (jsval \<Rightarrow> string \<Rightarrow> string) \<Rightarrow> props" where
  "mapKeys object iteratee =
     foldl (\<lambda>result (k, v). AList.update (iteratee v k) v result) [] object"

definition assign :: "props \<Rightarrow> props \<Rightarrow> props" where
  "assign object source = foldl (\<lambda>result (k, v). AList.update k v result) object source"

section \<open>setupHook: the closure\<close>

text \<open>Line 46: the cache starts empty. The other fields belong to the host.\<close>

definition setup_state :: "(string \<rightharpoonup> cache_entry) \<Rightarrow> nat \<Rightarrow> state" where
  "setup_state rc i = \<lparr>tokensByFile = Map.empty, requireCache = rc, nextId = i, trace = []\<rparr>"

text \<open>Lines 49-51.\<close>

definition debugMode :: "env \<Rightarrow> bool" where
  "debugMode e =
     (case devMode (opts e) of
        Some d \<Rightarrow> d
      | None \<Rightarrow> NODE_ENV (node e) = Some ''development'')"

text \<open>
  Lines 86-91. The regular expression \<^verbatim>\<open>/[^\\/?%*:|"<>\.]/i\<close> is tested
  against \<^verbatim>\<open>_to[0]\<close>; for the empty string that is \<^verbatim>\<open>undefined\<close>,
  which \<^verbatim>\<open>test\<close> reads as the text "undefined", and the test succeeds.
\<close>

definition marker_chars :: "char list" where
  "marker_chars =
     [CHR 0x5C, CHR ''/'', CHR ''?'', CHR ''%'', CHR ''*'', CHR '':'', CHR ''|'',
      CHR 0x22, CHR ''<'', CHR ''>'', CHR ''.'']"

definition first_char_test :: "string \<Rightarrow> bool" where
  "first_char_test to = (case to of [] \<Rightarrow> True | c # cs \<Rightarrow> c \<notin> set marker_chars)"

definition resolveFilename :: "host \<Rightarrow> string \<Rightarrow> string \<Rightarrow> error + string" where
  "resolveFilename h to from =
     (if first_char_test to
      then require_resolve h to
      else Inr (path_resolve h (dirname h from) to))"

text \<open>\<^verbatim>\<open>tokensByFile[filename]\<close>; file names are absolute paths.\<close>

definition cache_get :: "state \<Rightarrow> string \<Rightarrow> jsval" where
  "cache_get s filename = (case tokensByFile s filename of Some v \<Rightarrow> v | None \<Rightarrow> Undefined)"

text \<open>Line 112: read the file, then preprocess it (identity by default, line 29).\<close>

definition read_source :: "env \<Rightarrow> string \<Rightarrow> state \<Rightarrow> (error + string) \<times> state" where
  "read_source e filename s =
     (case readFileSync (node e) filename of
        Inl err \<Rightarrow> (Inl err, emit (ReadFile filename) s)
      | Inr text \<Rightarrow>
          (case preprocessCss (opts e) of
             None \<Rightarrow> (Inr text, emit (ReadFile filename) s)
           | Some pre \<Rightarrow> (pre text filename, emit (PreprocessCss filename) (emit (ReadFile filename) s))))"

text \<open>Line 122: \<^verbatim>\<open>assign(mapKeys(tokens, (value, key) => camelCaseFunc(key)), tokens)\<close>.\<close>

definition camelized :: "host \<Rightarrow> props \<Rightarrow> props" where
  "camelized h tokens = assign (mapKeys tokens (\<lambda>value key. camelCaseFunc h key)) tokens"

text \<open>
  Lines 119-123: the token object of this run is a new object (the parser plugin makes
  one per run), and with \<^verbatim>\<open>camelCase\<close> on it is replaced by the new object
  that \<^verbatim>\<open>mapKeys\<close> makes. \<open>i\<close> is the next free identity.
\<close>

definition augment :: "env \<Rightarrow> nat \<Rightarrow> props \<Rightarrow> jsval" where
  "augment e i tokens =
     (if camelCase (opts e) then Obj (Suc i) (camelized (node e) tokens) else Obj i tokens)"

definition allocated :: "env \<Rightarrow> nat" where
  "allocated e = (if camelCase (opts e) then 2 else 1)"

text \<open>Line 117.\<close>

definition warn_all :: "string list \<Rightarrow> state \<Rightarrow> state" where
  "warn_all ms s = foldl (\<lambda>s' m. emit (ConsoleWarn m) s') s ms"

text \<open>Lines 125-131: the two callbacks, when configured. An exception ends the fetch.\<close>

definition run_callbacks ::
  "env \<Rightarrow> string \<Rightarrow> lazy_result \<Rightarrow> jsval \<Rightarrow> state \<Rightarrow> (error + jsval) \<times> state" where
  "run_callbacks e filename res tokens s =
     (case (case processCss (opts e) of
              None \<Rightarrow> (Inr (), s)
            | Some pc \<Rightarrow> (pc (css res) filename, emit (ProcessCss (css res) filename) s)) of
        (Inl err, s1) \<Rightarrow> (Inl err, s1)
      | (Inr u, s1) \<Rightarrow>
          (case processTokens (opts e) of
             None \<Rightarrow> (Inr tokens, s1)
           | Some pt \<Rightarrow> (pt tokens filename res, emit (ProcessTokens filename) s1)))"

text \<open>Lines 133-139: the cache in normal mode, the loader's cache in debug mode.\<close>

definition commit :: "env \<Rightarrow> string \<Rightarrow> jsval \<Rightarrow> state \<Rightarrow> state" where
  "commit e filename tokens s =
     (if \<not> debugMode e
      then s\<lparr>tokensByFile := (tokensByFile s)(filename \<mapsto> tokens)\<rparr>
      else s\<lparr>requireCache := (requireCache s)(filename := None)\<rparr>)"

text \<open>Lines 117-143, once the runner has returned.\<close>

definition finish :: "env \<Rightarrow> string \<Rightarrow> lazy_result \<Rightarrow> state \<Rightarrow> (error + jsval) \<times> state" where
  "finish e filename res s0 =
     (let s1 = warn_all (messages res) s0;
          tokens1 = augment e (nextId s1) (root_tokens res);
          s2 = s1\<lparr>nextId := nextId s1 + allocated e\<rparr>
      in case run_callbacks e filename res tokens1 s2 of
           (Inl err, s3) \<Rightarrow> (Inl err, s3)
         | (Inr tokens, s3) \<Rightarrow> (Inr tokens, emit (DebugTokens tokens) (commit e filename tokens s3)))"

text \<open>
  Lines 99-144. Imports may form a cycle, and then the recursion of the source does not
  end; the first argument bounds the depth of the calls, and \<open>None\<close> is a run that
  did not return within it.
\<close>

fun fetch :: "nat \<Rightarrow> env \<Rightarrow> state \<Rightarrow> string \<Rightarrow> string \<Rightarrow> ((error + jsval) \<times> state) option"
and run_pipeline :: "nat \<Rightarrow> env \<Rightarrow> state \<Rightarrow> pipe \<Rightarrow> ((error + lazy_result) \<times> state) option"
where
  "fetch 0 e s to from = None"
| "fetch (Suc n) e s to from =
     (case resolveFilename (node e) to from of
        Inl err \<Rightarrow> Some (Inl err, s)
      | Inr filename \<Rightarrow>
          if truthy (cache_get s filename)
          then Some (Inr (cache_get s filename),
                     emit (DebugTokens (cache_get s filename)) (emit (FetchFromCache filename) s))
          else
            (case read_source e filename (emit (FetchFromFs filename) s) of
               (Inl err, s1) \<Rightarrow> Some (Inl err, s1)
             | (Inr source, s1) \<Rightarrow>
                 (case run_pipeline n e (emit (Process filename) s1) (runner (opts e) source filename) of
                    None \<Rightarrow> None
                  | Some (Inl err, s2) \<Rightarrow> Some (Inl err, s2)
                  | Some (Inr res, s2) \<Rightarrow> Some (finish e filename res s2))))"
| "run_pipeline 0 e s p = None"
| "run_pipeline (Suc n) e s (Done res) = Some (Inr res, s)"
| "run_pipeline (Suc n) e s (Throw err) = Some (Inl err, s)"
| "run_pipeline (Suc n) e s (Fetch to from k) =
     (case fetch n e s to from of
        None \<Rightarrow> None
      | Some (Inl err, s') \<Rightarrow> Some (Inl err, s')
      | Some (Inr tokens, s') \<Rightarrow> run_pipeline n e s' (k tokens))"

text \<open>Lines 149-184: the two traps of the proxy of \<open>filename\<close>.\<close>

definition proxy_set :: "target \<Rightarrow> key \<Rightarrow> jsval \<Rightarrow> bool \<times> target" where
  "proxy_set t name v = (True, target_put t name v)"

definition proxy_get ::
  "nat \<Rightarrow> env \<Rightarrow> string \<Rightarrow> target \<Rightarrow> state \<Rightarrow> key \<Rightarrow> ((error + jsval) \<times> target \<times> state) option"
where
  "proxy_get n e filename t s name =
     (let snapshot = target_get (node e) t (Name ''cache'') in
      if is_inspect_custom name then
        (if truthy snapshot then Some (Inr snapshot, t, s)
         else if truthy (cache_get s filename) then Some (Inr (cache_get s filename), t, s)
         else case fetch n e s filename filename of
                None \<Rightarrow> None
              | Some (r, s') \<Rightarrow> Some (r, t, s'))
      else if truthy (target_get (node e) t name) then
        Some (Inr (target_get (node e) t name), t, s)
      else if truthy snapshot \<and> (case get_prop (node e) snapshot name of Inr x \<Rightarrow> truthy x | Inl err \<Rightarrow> False) then
        Some (get_prop (node e) snapshot name, t, s)
      else if \<not> truthy (cache_get s filename) then
        (case fetch n e s filename filename of
           None \<Rightarrow> None
         | Some (Inl err, s') \<Rightarrow> Some (Inl err, t, s')
         | Some (Inr tokens, s') \<Rightarrow>
             Some (get_prop (node e) tokens name,
                   if debugMode e then target_put t (Name ''cache'') tokens else t,
                   s'))
      else Some (get_prop (node e) (cache_get s filename) name, t, s))"

text \<open>Successive reads of properties on one proxy, each on the target and the state the
  previous one left.\<close>

fun proxy_reads ::
  "nat \<Rightarrow> env \<Rightarrow> string \<Rightarrow> target \<Rightarrow> state \<Rightarrow> key list \<Rightarrow>
     ((error + jsval) list \<times> target \<times> state) option"
where
  "proxy_reads n e filename t s [] = Some ([], t, s)"
| "proxy_reads n e filename t s (name # names) =
     (case proxy_get n e filename t s name of
        None \<Rightarrow> None
      | Some (r, t', s') \<Rightarrow>
          (case proxy_reads n e filename t' s' names of
             None \<Rightarrow> None
           | Some (rs, t'', s'') \<Rightarrow> Some (r # rs, t'', s'')))"

text \<open>
  Lines 237-247. \<open>IgnoreRegExp\<close> is a regular expression without the \<^verbatim>\<open>g\<close> or
  \<^verbatim>\<open>y\<close> flag, whose \<^verbatim>\<open>test\<close> is a function of the path alone.
\<close>

definition buildExceptionChecker :: "host \<Rightarrow> ignore_option \<Rightarrow> string \<Rightarrow> jsval" where
  "buildExceptionChecker h ig filepath =
     (case ig of
        IgnoreRegExp re \<Rightarrow> Bool (re filepath)
      | IgnoreGlob g \<Rightarrow> Bool (globToRegex_test h g filepath)
      | IgnoreFunction f \<Rightarrow> f filepath
      | IgnoreUnset \<Rightarrow> Bool (\<not> truthy (Str filepath)))"

text \<open>
  Lines 193-219. The handler found at \<^verbatim>\<open>require.extensions[extension]\<close> when
  the hook was installed is \<open>existingHook\<close>, \<open>None\<close> when there was none. In
  the call \<^verbatim>\<open>existingHook(m, filename)\<close> the arguments are evaluated before
  the call is attempted, and \<^verbatim>\<open>m\<close> is bound by no scope of the file (the
  parameter is \<^verbatim>\<open>module\<close>), so it is read from the global object.
\<close>

type_synonym handler = "jsval \<Rightarrow> string \<Rightarrow> state \<Rightarrow> (error + unit) \<times> state"

definition cssModulesHook ::
  "env \<Rightarrow> handler option \<Rightarrow> jsval \<Rightarrow> string \<Rightarrow> state \<Rightarrow> (error + unit) \<times> state"
where
  "cssModulesHook e existingHook module filename s =
     (if truthy (buildExceptionChecker (node e) (ignore (opts e)) filename) then
        (case globals (node e) ''m'' of
           None \<Rightarrow> (Inl (ReferenceError ''m is not defined''), s)
         | Some m \<Rightarrow>
            (case existingHook of
               None \<Rightarrow> (Inl (TypeError ''existingHook is not a function''), s)
             | Some hook \<Rightarrow> hook m filename s))
      else
        (case resolveFilename (node e) filename filename of
           Inl err \<Rightarrow> (Inl err, s)
         | Inr fullFilename \<Rightarrow>
            (let s1 = emit (FetchRequire filename) s;
                 s2 = s1\<lparr>requireCache :=
                        (requireCache s1)(filename @ ''.proxy'' \<mapsto> CssProxy fullFilename new_target)\<rparr>
             in (Inr (), emit (ModuleCompile module fullFilename filename) s2))))"

text \<open>
  \<^verbatim>\<open>String(v)\<close>, as a template literal applies it to a value of the universe; a
  plain object that defines neither \<^verbatim>\<open>toString\<close> nor \<^verbatim>\<open>valueOf\<close>
  prints as \<^verbatim>\<open>[object Object]\<close>, a built-in function as native code.
\<close>

fun digits :: "nat \<Rightarrow> string" where
  "digits n =
     (if n < 10 then [''0123456789'' ! n]
      else digits (n div 10) @ [''0123456789'' ! (n mod 10)])"

fun to_String :: "jsval \<Rightarrow> string" where
  "to_String Undefined = ''undefined''"
| "to_String Null = ''null''"
| "to_String (Bool b) = (if b then ''true'' else ''false'')"
| "to_String (Num n) = (if n < 0 then CHR ''-'' # digits (nat (- n)) else digits (nat n))"
| "to_String (Str t) = t"
| "to_String (Obj i ps) = ''[object Object]''"
| "to_String (Builtin f) = ''function '' @ f @ ''() { [native code] }''"

text \<open>
  Lines 205-216: the module body that the hook compiles. What the importing module
  gets as \<^verbatim>\<open>module.exports\<close> is a second proxy. Its target holds the file
  name; its handler has a get trap and no set trap, so an assignment to a property of
  the exported object is the ordinary assignment on that target. The get trap answers
  \<^verbatim>\<open>__esModule\<close> from the target and every other name from
  \<^verbatim>\<open>require.cache[`${target.filename}.proxy`][name]\<close>, which for a CSS
  proxy is the get trap of lines 152-178 on the proxy's own target. The loader's cache
  inherits nothing.
\<close>

definition exported_target :: "string \<Rightarrow> target" where
  "exported_target fullFilename =
     \<lparr>own = [Name ''filename'' \<mapsto> Str fullFilename], tproto = Builtin ''Object.prototype''\<rparr>"

definition exported_set :: "target \<Rightarrow> key \<Rightarrow> jsval \<Rightarrow> bool \<times> target" where
  "exported_set t name v = (True, target_put t name v)"

definition exported_get ::
  "nat \<Rightarrow> env \<Rightarrow> target \<Rightarrow> state \<Rightarrow> key \<Rightarrow> ((error + jsval) \<times> state) option"
where
  "exported_get n e t s name =
     (if name = Name ''__esModule'' then Some (Inr (target_get (node e) t name), s)
      else
        (let cacheKey = to_String (target_get (node e) t (Name ''filename'')) @ ''.proxy'' in
         case requireCache s cacheKey of
           None \<Rightarrow> Some (Inl (TypeError ''Cannot read properties of undefined''), s)
         | Some (HostModule v) \<Rightarrow> Some (get_prop (node e) v name, s)
         | Some (CssProxy filename inner) \<Rightarrow>
             (case proxy_get n e filename inner s name of
                None \<Rightarrow> None
              | Some (r, inner', s') \<Rightarrow>
                  Some (r,
                        case requireCache s' cacheKey of
                          Some (CssProxy filename' inner0) \<Rightarrow>
                            s'\<lparr>requireCache := (requireCache s')(cacheKey \<mapsto> CssProxy filename' inner')\<rparr>
                        | _ \<Rightarrow> s'))))"

section \<open>Observations on a run\<close>

text \<open>How often the runner was started on a file, and how often a fetch of a file went
  to the file system.\<close>

definition process_count :: "string \<Rightarrow> state \<Rightarrow> nat" where
  "process_count filename s = count_list (trace s) (Process filename)"

definition fs_count :: "string \<Rightarrow> state \<Rightarrow> nat" where
  "fs_count filename s = count_list (trace s) (FetchFromFs filename)"

text \<open>A run that ends without having asked for the tokens of another file.\<close>

fun no_imports :: "pipe \<Rightarrow> bool" where
  "no_imports (Fetch to from k) = False"
| "no_imports p = True"

section \<open>An installation for the concrete runs\<close>

text \<open>
  A small POSIX installation on which the code is run below: a project directory with
  five style sheets, one installed package, and stand-ins for the collaborators that
  behave as the real ones do on the inputs used here. Paths carry no trailing slash.
\<close>

fun split_path :: "string \<Rightarrow> string list" where
  "split_path [] = [[]]"
| "split_path (c # cs) =
     (if c = CHR ''/'' then [] # split_path cs
      else case split_path cs of
             [] \<Rightarrow> [[c]]
           | w # ws \<Rightarrow> (c # w) # ws)"

fun normalize_segments :: "string list \<Rightarrow> string list \<Rightarrow> string list" where
  "normalize_segments acc [] = acc"
| "normalize_segments acc (seg # segs) =
     (if seg = [] \<or> seg = ''.'' then normalize_segments acc segs
      else if seg = ''..'' then normalize_segments (butlast acc) segs
      else normalize_segments (acc @ [seg]) segs)"

definition join_path :: "string list \<Rightarrow> string" where
  "join_path segs = (if segs = [] then ''/'' else concat (map (\<lambda>seg. CHR ''/'' # seg) segs))"

text \<open>\<^verbatim>\<open>path.resolve(dir, to)\<close> for an absolute \<open>dir\<close>.\<close>

definition posix_resolve :: "string \<Rightarrow> string \<Rightarrow> string" where
  "posix_resolve dir to =
     join_path (normalize_segments []
       (if to \<noteq> [] \<and> hd to = CHR ''/'' then split_path to else split_path dir @ split_path to))"

definition posix_dirname :: "string \<Rightarrow> string" where
  "posix_dirname path =
     (if CHR ''/'' \<notin> set path then ''.''
      else case rev (tl (dropWhile (\<lambda>c. c \<noteq> CHR ''/'') (rev path))) of
             [] \<Rightarrow> ''/''
           | d \<Rightarrow> d)"

text \<open>A glob as glob-to-regexp reads it without options: \<^verbatim>\<open>*\<close> is any text.\<close>

fun glob_match :: "string \<Rightarrow> string \<Rightarrow> bool" where
  "glob_match [] [] = True"
| "glob_match [] (c # cs) = False"
| "glob_match (p # ps) [] = (p = CHR ''*'' \<and> glob_match ps [])"
| "glob_match (p # ps) (c # cs) =
     (if p = CHR ''*'' then glob_match ps (c # cs) \<or> glob_match (p # ps) cs
      else p = c \<and> glob_match ps cs)"

definition upper_char :: "char \<Rightarrow> char" where
  "upper_char c =
     (case map_of (zip ''abcdefghijklmnopqrstuvwxyz'' ''ABCDEFGHIJKLMNOPQRSTUVWXYZ'') c of
        Some u \<Rightarrow> u
      | None \<Rightarrow> c)"

text \<open>
  lodash \<^verbatim>\<open>camelCase\<close> on keys made of lower-case words separated by
  \<^verbatim>\<open>-\<close>, \<^verbatim>\<open>_\<close> or blanks: the separators go, and every word but the
  first is capitalised. The flags say whether a word has been written and whether the
  next letter starts a word.
\<close>

fun camel_words :: "bool \<Rightarrow> bool \<Rightarrow> string \<Rightarrow> string" where
  "camel_words started up [] = []"
| "camel_words started up (c # cs) =
     (if c = CHR ''-'' \<or> c = CHR ''_'' \<or> c = CHR '' '' then camel_words started started cs
      else (if up then upper_char c else c) # camel_words True False cs)"

definition camel_lower :: "string \<Rightarrow> string" where
  "camel_lower k = camel_words False False k"

definition object_prototype_names :: "string list" where
  "object_prototype_names =
     [''constructor'', ''hasOwnProperty'', ''isPrototypeOf'', ''propertyIsEnumerable'',
      ''toLocaleString'', ''toString'', ''valueOf'', ''__defineGetter__'',
      ''__defineSetter__'', ''__lookupGetter__'', ''__lookupSetter__'']"

fun object_prototype :: "jsval \<Rightarrow> key \<Rightarrow> jsval" where
  "object_prototype v (Name k) =
     (if k \<in> set object_prototype_names then Builtin (''Object.prototype.'' @ k)
      else if k = ''__proto__'' then Builtin ''Object.prototype''
      else Undefined)"
| "object_prototype v (Sym i d) = Undefined"

definition project_files :: "(string \<times> string) list" where
  "project_files =
     [(''/proj/a.css'', ''.title { color: red }''),
      (''/proj/b.css'', ''.box { composes: title from \"./a.css\" }''),
      (''/proj/c.css'', ''.foo-bar { } .foo_bar { }''),
      (''/proj/bad.css'',
       ''.box { composes: title from \"./a.css\"; composes: frame from \"./missing.css\" }''),
      (''/proj/broken.css'', ''.title { color: red'')]"

definition project_host :: host where
  "project_host =
     \<lparr>require_resolve =
        (\<lambda>request. if request = ''normalize.css''
                   then Inr ''/proj/node_modules/normalize.css/normalize.css''
                   else Inl (ModuleNotFound request)),
      path_resolve = posix_resolve,
      dirname = posix_dirname,
      readFileSync =
        (\<lambda>path. case map_of project_files path of
                  Some text \<Rightarrow> Inr text
                | None \<Rightarrow> Inl (FileNotFound path)),
      inherited = object_prototype,
      globals = map_of [(''process'', Builtin ''process''), (''console'', Builtin ''console'')],
      NODE_ENV = None,
      globToRegex_test = glob_match,
      camelCaseFunc = camel_lower\<rparr>"

text \<open>
  What the runner does with the five files: \<open>a.css\<close> and \<open>c.css\<close> import nothing,
  \<open>b.css\<close> composes a class of \<open>a.css\<close>, \<open>bad.css\<close> composes a class of
  \<open>a.css\<close> and then one of \<open>missing.css\<close>, a file that does not exist (the parser
  plugin fetches the imports of a file one after the other), and \<open>broken.css\<close> fails
  to parse, which happens before any plugin runs.
\<close>

definition title_of :: "host \<Rightarrow> jsval \<Rightarrow> string" where
  "title_of h tokens =
     (case get_prop h tokens (Name ''title'') of Inr (Str t) \<Rightarrow> t | _ \<Rightarrow> ''undefined'')"

definition project_runner :: "string \<Rightarrow> string \<Rightarrow> pipe" where
  "project_runner source filename =
     (if filename = ''/proj/a.css'' then
        Done \<lparr>css = ''._a_title { color: red }'', messages = [],
              root_tokens = [(''title'', Str ''_a_title'')]\<rparr>
      else if filename = ''/proj/b.css'' then
        Fetch ''./a.css'' filename
          (\<lambda>tokens. Done \<lparr>css = ''._b_box { }'', messages = [],
                          root_tokens = [(''box'', Str (''_b_box '' @ title_of project_host tokens))]\<rparr>)
      else if filename = ''/proj/c.css'' then
        Done \<lparr>css = ''._c_foo-bar { } ._c_foo_bar { }'', messages = [],
              root_tokens = [(''foo-bar'', Str ''_c_foo-bar''), (''foo_bar'', Str ''_c_foo_bar'')]\<rparr>
      else if filename = ''/proj/bad.css'' then
        Fetch ''./a.css'' filename
          (\<lambda>tokens. Fetch ''./missing.css'' filename
             (\<lambda>tokens'. Done \<lparr>css = ''._bad_box { }'', messages = [],
                              root_tokens = [(''box'', Str (''_bad_box '' @ title_of project_host tokens))]\<rparr>))
      else if filename = ''/proj/broken.css'' then
        Throw (TransformationError ''Unclosed block'')
      else Throw (TransformationError ''Unknown word''))"

definition project_options :: "bool \<Rightarrow> options" where
  "project_options dev =
     \<lparr>devMode = Some dev, ignore = IgnoreUnset, preprocessCss = None, processCss = None,
      processTokens = None, camelCase = False, runner = project_runner\<rparr>"

definition project_env :: "bool \<Rightarrow> env" where
  "project_env dev = \<lparr>node = project_host, opts = project_options dev\<rparr>"

text \<open>A \<^verbatim>\<open>processTokens\<close> that upper-cases every value of the mapping.\<close>

fun upper_value :: "jsval \<Rightarrow> jsval" where
  "upper_value (Str t) = Str (map upper_char t)"
| "upper_value v = v"

fun upper_tokens :: "jsval \<Rightarrow> string \<Rightarrow> lazy_result \<Rightarrow> error + jsval" where
  "upper_tokens (Obj i ps) filename res = Inr (Obj i (map (\<lambda>(k, v). (k, upper_value v)) ps))"
| "upper_tokens v filename res = Inr v"

definition upper_env :: env where
  "upper_env =
     \<lparr>node = project_host, opts = (project_options False)\<lparr>processTokens := Some upper_tokens\<rparr>\<rparr>"

definition camel_env :: env where
  "camel_env = \<lparr>node = project_host, opts = (project_options False)\<lparr>camelCase := True\<rparr>\<rparr>"

text \<open>The hook set up to leave the files of \<^verbatim>\<open>/proj/vendor\<close> to the handler
  that was there before.\<close>

definition vendor_env :: env where
  "vendor_env =
     \<lparr>node = project_host, opts = (project_options False)\<lparr>ignore := IgnoreGlob ''/proj/vendor/*''\<rparr>\<rparr>"

text \<open>The state right after \<^verbatim>\<open>setupHook\<close>, and one in which the loader has
  \<open>a.css\<close> in its cache.\<close>

definition fresh :: state where
  "fresh = setup_state Map.empty 0"

definition loaded :: state where
  "loaded = setup_state [''/proj/a.css'' \<mapsto> HostModule (Obj 0 [])] 1"

text \<open>The state after \<^verbatim>\<open>require('/proj/a.css')\<close> under the default options:
  the loader has called the hook with the new module and the file name.\<close>

definition required_a :: state where
  "required_a = snd (cssModulesHook (project_env False) None (Obj 0 []) ''/proj/a.css'' fresh)"

section \<open>Facts about the steps of a fetch\<close>

lemma emit_fields [simp]:
  "trace (emit ev s) = ev # trace s"
  "tokensByFile (emit ev s) = tokensByFile s"
  "requireCache (emit ev s) = requireCache s"
  "nextId (emit ev s) = nextId s"
  by (simp_all add: emit_def)

lemma cache_get_emit [simp]: "cache_get (emit ev s) f = cache_get s f"
  by (simp add: cache_get_def)

lemma cache_get_None: "tokensByFile s p = None \<Longrightarrow> cache_get s p = Undefined"
  by (simp add: cache_get_def)

lemma cache_get_truthy: "truthy (cache_get s p) \<Longrightarrow> tokensByFile s p = Some (cache_get s p)"
  by (cases "tokensByFile s p") (simp_all add: cache_get_def)

lemma warn_all_fields [simp]:
  "tokensByFile (warn_all ms s) = tokensByFile s"
  "requireCache (warn_all ms s) = requireCache s"
  "nextId (warn_all ms s) = nextId s"
  unfolding warn_all_def by (induction ms arbitrary: s) simp_all

lemma trace_warn_all: "trace (warn_all ms s) = rev (map ConsoleWarn ms) @ trace s"
  unfolding warn_all_def by (induction ms arbitrary: s) simp_all

lemma count_list_grows: "count_list xs x \<le> count_list (es @ xs) x"
  by (induction es) simp_all

lemma read_source_cases:
  assumes "read_source e f s = (r, s')"
  shows "tokensByFile s' = tokensByFile s \<and> requireCache s' = requireCache s \<and>
         nextId s' = nextId s \<and> (\<exists>es. trace s' = es @ trace s \<and> FetchFromFs x \<notin> set es)"
  using assms unfolding read_source_def
  by (auto split: sum.splits option.splits)

lemma read_source_fs_count:
  assumes "read_source e f s = (r, s')"
  shows "fs_count x s' = fs_count x s"
  using read_source_cases[OF assms, of x] by (auto simp: fs_count_def)

lemma read_source_failure:
  assumes "readFileSync (node e) f = Inl e0"
  shows "read_source e f s = (Inl e0, emit (ReadFile f) s)"
  using assms by (simp add: read_source_def)

lemma run_callbacks_cases:
  assumes "run_callbacks e f res t s = (r, s')"
  shows "tokensByFile s' = tokensByFile s \<and> requireCache s' = requireCache s \<and>
         nextId s' = nextId s \<and> (\<exists>es. trace s' = es @ trace s \<and> FetchFromFs x \<notin> set es)"
  using assms unfolding run_callbacks_def
  by (auto split: sum.splits option.splits prod.splits)

lemma run_callbacks_no_processTokens:
  assumes "processTokens (opts e) = None" "run_callbacks e f res t s = (Inr v, s')"
  shows "v = t"
  using assms unfolding run_callbacks_def
  by (auto split: sum.splits option.splits prod.splits)

lemma run_callbacks_processTokens:
  assumes "processTokens (opts e) = Some pt" "run_callbacks e f res t s = (Inr v, s')"
  shows "pt t f res = Inr v"
  using assms unfolding run_callbacks_def
  by (auto split: sum.splits option.splits prod.splits)

lemma finish_cases:
  assumes "finish e f res s = (r, s')"
  shows "(\<exists>err s3. r = Inl err \<and>
            run_callbacks e f res (augment e (nextId s) (root_tokens res))
              ((warn_all (messages res) s)\<lparr>nextId := nextId s + allocated e\<rparr>) = (Inl err, s3) \<and> s' = s3)
       \<or> (\<exists>tokens s3. r = Inr tokens \<and>
            run_callbacks e f res (augment e (nextId s) (root_tokens res))
              ((warn_all (messages res) s)\<lparr>nextId := nextId s + allocated e\<rparr>) = (Inr tokens, s3) \<and>
            s' = emit (DebugTokens tokens) (commit e f tokens s3))"
  using assms unfolding finish_def Let_def
  by (auto split: sum.splits prod.splits)

lemma finish_trace:
  assumes "finish e f res s = (r, s')"
  shows "\<exists>es. trace s' = es @ trace s \<and> FetchFromFs x \<notin> set es"
proof -
  let ?s2 = "(warn_all (messages res) s)\<lparr>nextId := nextId s + allocated e\<rparr>"
  have w: "trace ?s2 = rev (map ConsoleWarn (messages res)) @ trace s"
    by (simp add: trace_warn_all)
  from finish_cases[OF assms] show ?thesis
  proof (elim disjE exE conjE)
    fix err s3
    assume rc: "run_callbacks e f res (augment e (nextId s) (root_tokens res)) ?s2 = (Inl err, s3)"
      and s': "s' = s3"
    from run_callbacks_cases[OF rc, of x] obtain es where
      "trace s3 = es @ trace ?s2" "FetchFromFs x \<notin> set es" by blast
    with w s' show ?thesis by auto
  next
    fix tokens s3
    assume rc: "run_callbacks e f res (augment e (nextId s) (root_tokens res)) ?s2 = (Inr tokens, s3)"
      and s': "s' = emit (DebugTokens tokens) (commit e f tokens s3)"
    from run_callbacks_cases[OF rc, of x] obtain es where
      es: "trace s3 = es @ trace ?s2" "FetchFromFs x \<notin> set es" by blast
    have "trace s' = DebugTokens tokens # trace s3"
      using s' by (simp add: commit_def)
    with w es show ?thesis by auto
  qed
qed

lemma finish_cache_failure:
  assumes "finish e f res s = (Inl err, s')"
  shows "tokensByFile s' = tokensByFile s"
  using finish_cases[OF assms] run_callbacks_cases
  by (fastforce)

lemma finish_cache_elsewhere:
  assumes "finish e f res s = (r, s')" "x \<noteq> f"
  shows "tokensByFile s' x = tokensByFile s x"
  using finish_cases[OF assms(1)] assms(2) run_callbacks_cases[of e f res _ _ _ _ x]
  by (fastforce simp: commit_def)

lemma finish_cache_debug:
  assumes "finish e f res s = (r, s')" "debugMode e"
  shows "tokensByFile s' = tokensByFile s"
  using finish_cases[OF assms(1)] assms(2) run_callbacks_cases[of e f res _ _ _ _ f]
  by (fastforce simp: commit_def)

lemma finish_commit_normal:
  assumes "finish e f res s = (Inr tokens, s')" "\<not> debugMode e"
  shows "tokensByFile s' f = Some tokens"
  using finish_cases[OF assms(1)] assms(2)
  by (auto simp: commit_def)

lemma finish_delete_debug:
  assumes "finish e f res s = (Inr tokens, s')" "debugMode e"
  shows "requireCache s' f = None"
  using finish_cases[OF assms(1)] assms(2)
  by (auto simp: commit_def)

lemma finish_no_processTokens:
  assumes "processTokens (opts e) = None" "finish e f res s = (Inr v, s')"
  shows "v = augment e (nextId s) (root_tokens res)"
  using finish_cases[OF assms(2)] run_callbacks_no_processTokens[OF assms(1)]
  by auto

lemma finish_processTokens:
  assumes "processTokens (opts e) = Some pt" "finish e f res s = (Inr v, s')"
  shows "pt (augment e (nextId s) (root_tokens res)) f res = Inr v"
  using finish_cases[OF assms(2)] run_callbacks_processTokens[OF assms(1)]
  by auto

subsection \<open>How a fetch that returned went\<close>

lemma fetch_returns_Suc:
  assumes "fetch n e s to frm = Some a"
  obtains k where "n = Suc k"
  using assms by (cases n) simp_all

lemma fetched:
  assumes "map_option fst (fetch n e s to frm) = Some r"
  shows "fetch n e s to frm = Some (r, snd (the (fetch n e s to frm)))"
  using assms by (cases "fetch n e s to frm") auto

lemma fetch_hit:
  assumes "resolveFilename (node e) to frm = Inr p" and "truthy (cache_get s p)"
  shows "fetch (Suc n) e s to frm =
           Some (Inr (cache_get s p), emit (DebugTokens (cache_get s p)) (emit (FetchFromCache p) s))"
  using assms by simp

lemma fetch_miss_cases:
  assumes "fetch (Suc n) e s to frm = Some (r, s')"
    and "resolveFilename (node e) to frm = Inr p"
    and "\<not> truthy (cache_get s p)"
  shows "(\<exists>err. read_source e p (emit (FetchFromFs p) s) = (Inl err, s') \<and> r = Inl err)
       \<or> (\<exists>src s1 err. read_source e p (emit (FetchFromFs p) s) = (Inr src, s1) \<and>
             run_pipeline n e (emit (Process p) s1) (runner (opts e) src p) = Some (Inl err, s') \<and>
             r = Inl err)
       \<or> (\<exists>src s1 res s2. read_source e p (emit (FetchFromFs p) s) = (Inr src, s1) \<and>
             run_pipeline n e (emit (Process p) s1) (runner (opts e) src p) = Some (Inr res, s2) \<and>
             finish e p res s2 = (r, s'))"
  using assms
  by (auto split: sum.splits prod.splits option.splits)

lemma run_pipeline_no_imports:
  assumes "run_pipeline n e s p = Some (r, s')" "no_imports p"
  shows "s' = s"
  using assms by (cases n; cases p) simp_all

section \<open>Relations kept by every run\<close>

text \<open>
  A fetch and the runs it starts only ever log, read sources and finish files. A
  relation between states that is reflexive and transitive, holds across a logged
  event and a read, and holds across the finishing of a file whose fetch began by
  logging that it goes to the file system, therefore holds between the state before
  and after any fetch and any run, whatever the imports.
\<close>

lemma fetch_run_related:
  assumes refl: "\<And>s. R s s"
    and trans: "\<And>a b c. R a b \<Longrightarrow> R b c \<Longrightarrow> R a c"
    and em: "\<And>ev s. R s (emit ev s)"
    and rs: "\<And>f s r s'. read_source e f s = (r, s') \<Longrightarrow> R s s'"
    and fin: "\<And>f res s0 s r s'.
                R (emit (FetchFromFs f) s0) s \<Longrightarrow> finish e f res s = (r, s') \<Longrightarrow> R s0 s'"
  shows "(\<forall>s to from r s'. fetch n e s to from = Some (r, s') \<longrightarrow> R s s') \<and>
         (\<forall>s p r s'. run_pipeline n e s p = Some (r, s') \<longrightarrow> R s s')"
proof (induction n)
  case 0
  show ?case by simp
next
  case (Suc n)
  have ihf: "\<And>s to from r s'. fetch n e s to from = Some (r, s') \<Longrightarrow> R s s'"
    and ihr: "\<And>s p r s'. run_pipeline n e s p = Some (r, s') \<Longrightarrow> R s s'"
    using Suc.IH by blast+
  have F: "R s s'" if f: "fetch (Suc n) e s to frm = Some (r, s')" for s to frm r s'
  proof (cases "resolveFilename (node e) to frm")
    case (Inl err)
    with f have "s' = s" by simp
    then show ?thesis by (simp add: refl)
  next
    case (Inr p)
    show ?thesis
    proof (cases "truthy (cache_get s p)")
      case True
      with f Inr have "s' = emit (DebugTokens (cache_get s p)) (emit (FetchFromCache p) s)"
        by auto
      then show ?thesis using em trans by blast
    next
      case False
      obtain r1 s1 where r1: "read_source e p (emit (FetchFromFs p) s) = (r1, s1)"
        by (cases "read_source e p (emit (FetchFromFs p) s)")
      have R1: "R (emit (FetchFromFs p) s) s1" using rs[OF r1] .
      show ?thesis
      proof (cases r1)
        case (Inl err)
        with f Inr False r1 have "s' = s1" by simp
        with R1 em trans show ?thesis by blast
      next
        case src: (Inr src)
        let ?sp = "emit (Process p) s1"
        have R2: "R (emit (FetchFromFs p) s) ?sp" using R1 em trans by blast
        show ?thesis
        proof (cases "run_pipeline n e ?sp (runner (opts e) src p)")
          case None
          with f Inr False r1 src show ?thesis by simp
        next
          case (Some a)
          obtain r2 s2 where a: "a = (r2, s2)" by (cases a)
          have R3: "R (emit (FetchFromFs p) s) s2"
            using ihr[OF Some[unfolded a]] R2 trans by blast
          show ?thesis
          proof (cases r2)
            case (Inl err)
            with f Inr False r1 src Some a have "s' = s2" by simp
            with R3 em trans show ?thesis by blast
          next
            case res: (Inr res)
            with f Inr False r1 src Some a have "finish e p res s2 = (r, s')" by simp
            from fin[OF R3 this] show ?thesis .
          qed
        qed
      qed
    qed
  qed
  have P: "R s s'" if f: "run_pipeline (Suc n) e s p = Some (r, s')" for s p r s'
  proof (cases p)
    case (Done x1)
    with f show ?thesis by (simp add: refl)
  next
    case (Throw x2)
    with f show ?thesis by (simp add: refl)
  next
    case (Fetch to frm k)
    show ?thesis
    proof (cases "fetch n e s to frm")
      case None
      with f Fetch show ?thesis by simp
    next
      case (Some a)
      obtain r1 s1 where a: "a = (r1, s1)" by (cases a)
      have R1: "R s s1" using ihf[OF Some[unfolded a]] .
      show ?thesis
      proof (cases r1)
        case (Inl err)
        with f Fetch Some a have "s' = s1" by simp
        with R1 show ?thesis by simp
      next
        case (Inr tokens)
        with f Fetch Some a have "run_pipeline n e s1 (k tokens) = Some (r, s')" by simp
        from ihr[OF this] R1 trans show ?thesis by blast
      qed
    qed
  qed
  from F P show ?case by blast
qed

lemma trace_grows:
  "(\<forall>s to frm r s'. fetch n e s to frm = Some (r, s') \<longrightarrow> (\<exists>es. trace s' = es @ trace s)) \<and>
   (\<forall>s p r s'. run_pipeline n e s p = Some (r, s') \<longrightarrow> (\<exists>es. trace s' = es @ trace s))"
proof (rule fetch_run_related)
  show "\<exists>es. trace s = es @ trace s" for s by simp
  show "\<exists>es. trace c = es @ trace a"
    if "\<exists>es. trace b = es @ trace a" "\<exists>es. trace c = es @ trace b" for a b c
    using that by auto
  show "\<exists>es. trace (emit ev s) = es @ trace s" for ev s by simp
  show "\<exists>es. trace s' = es @ trace s" if "read_source e f s = (r, s')" for f s r s'
    using read_source_cases[OF that] by blast
  show "\<exists>es. trace s' = es @ trace s0"
    if "\<exists>es. trace s = es @ trace (emit (FetchFromFs f) s0)" "finish e f res s = (r, s')"
    for f res s0 s r s'
  proof -
    from that(1) obtain es1 where "trace s = es1 @ FetchFromFs f # trace s0" by auto
    moreover from finish_trace[OF that(2), of f] obtain es2 where "trace s' = es2 @ trace s"
      by blast
    ultimately have "trace s' = (es2 @ es1 @ [FetchFromFs f]) @ trace s0" by simp
    then show ?thesis by blast
  qed
qed

lemma debug_cache_kept:
  assumes "debugMode e"
  shows "(\<forall>s to frm r s'. fetch n e s to frm = Some (r, s') \<longrightarrow> tokensByFile s' = tokensByFile s) \<and>
         (\<forall>s p r s'. run_pipeline n e s p = Some (r, s') \<longrightarrow> tokensByFile s' = tokensByFile s)"
proof (rule fetch_run_related)
  show "tokensByFile s = tokensByFile s" for s by simp
  show "tokensByFile c = tokensByFile a"
    if "tokensByFile b = tokensByFile a" "tokensByFile c = tokensByFile b" for a b c
    using that by simp
  show "tokensByFile (emit ev s) = tokensByFile s" for ev s by simp
  show "tokensByFile s' = tokensByFile s" if "read_source e f s = (r, s')" for f s r s'
    using read_source_cases[OF that] by blast
  show "tokensByFile s' = tokensByFile s0"
    if "tokensByFile s = tokensByFile (emit (FetchFromFs f) s0)" "finish e f res s = (r, s')"
    for f res s0 s r s'
    using that(1) finish_cache_debug[OF that(2) assms] by simp
qed

lemma cache_change_read:
  "(\<forall>s to frm r s'. fetch n e s to frm = Some (r, s') \<longrightarrow>
      (\<forall>x. fs_count x s \<le> fs_count x s' \<and>
           (tokensByFile s' x \<noteq> tokensByFile s x \<longrightarrow> fs_count x s < fs_count x s'))) \<and>
   (\<forall>s p r s'. run_pipeline n e s p = Some (r, s') \<longrightarrow>
      (\<forall>x. fs_count x s \<le> fs_count x s' \<and>
           (tokensByFile s' x \<noteq> tokensByFile s x \<longrightarrow> fs_count x s < fs_count x s')))"
  (is "(\<forall>s to frm r s'. _ \<longrightarrow> ?R s s') \<and> (\<forall>s p r s'. _ \<longrightarrow> ?R s s')")
proof (rule fetch_run_related)
  show "?R s s" for s by simp
  show "?R a c" if ab: "?R a b" and bc: "?R b c" for a b c
  proof (intro allI conjI impI)
    fix x
    show "fs_count x a \<le> fs_count x c" using ab bc le_trans by blast
    assume "tokensByFile c x \<noteq> tokensByFile a x"
    then consider "tokensByFile b x \<noteq> tokensByFile a x" | "tokensByFile c x \<noteq> tokensByFile b x"
      by metis
    then show "fs_count x a < fs_count x c"
    proof cases
      case 1
      then have "fs_count x a < fs_count x b" using ab by blast
      moreover have "fs_count x b \<le> fs_count x c" using bc by blast
      ultimately show ?thesis by simp
    next
      case 2
      then have "fs_count x b < fs_count x c" using bc by blast
      moreover have "fs_count x a \<le> fs_count x b" using ab by blast
      ultimately show ?thesis by simp
    qed
  qed
  show "?R s (emit ev s)" for ev s by (simp add: fs_count_def)
  show "?R s s'" if "read_source e f s = (r, s')" for f s r s'
  proof (intro allI)
    fix x
    from read_source_cases[OF that, of x] obtain es where
      "tokensByFile s' = tokensByFile s" "trace s' = es @ trace s" by blast
    then show "fs_count x s \<le> fs_count x s' \<and>
        (tokensByFile s' x \<noteq> tokensByFile s x \<longrightarrow> fs_count x s < fs_count x s')"
      by (simp add: fs_count_def count_list_grows)
  qed
  show "?R s0 s'"
    if mid: "?R (emit (FetchFromFs f) s0) s" and fin: "finish e f res s = (r, s')"
    for f res s0 s r s'
  proof (intro allI)
    fix x
    from finish_trace[OF fin, of x] obtain es where es: "trace s' = es @ trace s" by blast
    have a: "fs_count x s \<le> fs_count x s'" by (simp add: fs_count_def es count_list_grows)
    have b: "fs_count x s0 \<le> fs_count x (emit (FetchFromFs f) s0)" by (simp add: fs_count_def)
    have c: "fs_count x (emit (FetchFromFs f) s0) \<le> fs_count x s" using mid by blast
    have le: "fs_count x s0 \<le> fs_count x s'" using a b c by simp
    have lt: "fs_count x s0 < fs_count x s'" if ch: "tokensByFile s' x \<noteq> tokensByFile s0 x"
    proof (cases "x = f")
      case True
      have "fs_count f s0 < fs_count f (emit (FetchFromFs f) s0)" by (simp add: fs_count_def)
      with a c True show ?thesis by simp
    next
      case False
      from finish_cache_elsewhere[OF fin False] ch
      have "tokensByFile s x \<noteq> tokensByFile (emit (FetchFromFs f) s0) x" by simp
      then have "fs_count x (emit (FetchFromFs f) s0) < fs_count x s" using mid by blast
      with a b show ?thesis by simp
    qed
    from le lt show "fs_count x s0 \<le> fs_count x s' \<and>
        (tokensByFile s' x \<noteq> tokensByFile s0 x \<longrightarrow> fs_count x s0 < fs_count x s')" by blast
  qed
qed

lemma miss_runs_pipeline:
  assumes f: "fetch n e s to frm = Some (Inr t, s')"
    and p: "resolveFilename (node e) to frm = Inr p"
    and miss: "\<not> truthy (cache_get s p)"
  shows "process_count p s < process_count p s'"
proof -
  from f obtain k where n: "n = Suc k" by (rule fetch_returns_Suc)
  from fetch_miss_cases[OF f[unfolded n] p miss]
  obtain src s1 res s2 where
    rs: "read_source e p (emit (FetchFromFs p) s) = (Inr src, s1)" and
    run: "run_pipeline k e (emit (Process p) s1) (runner (opts e) src p) = Some (Inr res, s2)" and
    fin: "finish e p res s2 = (Inr t, s')"
    by auto
  from read_source_cases[OF rs, of p] obtain es1 where
    e1: "trace s1 = es1 @ FetchFromFs p # trace s" by auto
  from trace_grows[of k e] run obtain es2 where
    e2: "trace s2 = es2 @ Process p # trace s1" by fastforce
  from finish_trace[OF fin, of p] obtain es3 where
    e3: "trace s' = es3 @ trace s2" by blast
  have "trace s' = (es3 @ es2) @ Process p # (es1 @ [FetchFromFs p]) @ trace s"
    using e1 e2 e3 by simp
  then show ?thesis
    unfolding process_count_def by (simp del: append_assoc)
qed

lemma processTokens_invariant:
  assumes pt: "processTokens (opts e) = Some pt"
  shows "(\<forall>s to frm r s'. fetch n e s to frm = Some (r, s') \<longrightarrow>
            ((\<forall>q w. tokensByFile s q = Some w \<and> truthy w \<longrightarrow> (\<exists>t res. pt t q res = Inr w)) \<longrightarrow>
             (\<forall>q w. tokensByFile s' q = Some w \<and> truthy w \<longrightarrow> (\<exists>t res. pt t q res = Inr w)))) \<and>
         (\<forall>s p r s'. run_pipeline n e s p = Some (r, s') \<longrightarrow>
            ((\<forall>q w. tokensByFile s q = Some w \<and> truthy w \<longrightarrow> (\<exists>t res. pt t q res = Inr w)) \<longrightarrow>
             (\<forall>q w. tokensByFile s' q = Some w \<and> truthy w \<longrightarrow> (\<exists>t res. pt t q res = Inr w))))"
  (is "(\<forall>s to frm r s'. _ \<longrightarrow> (?I s \<longrightarrow> ?I s')) \<and> (\<forall>s p r s'. _ \<longrightarrow> (?I s \<longrightarrow> ?I s'))")
proof (rule fetch_run_related)
  show "?I s \<longrightarrow> ?I s" for s by simp
  show "?I a \<longrightarrow> ?I c" if "?I a \<longrightarrow> ?I b" "?I b \<longrightarrow> ?I c" for a b c
    using that by blast
  show "?I s \<longrightarrow> ?I (emit ev s)" for ev s by simp
  show "?I s \<longrightarrow> ?I s'" if "read_source e f s = (r, s')" for f s r s'
    using read_source_cases[OF that, of f] by simp
  show "?I s0 \<longrightarrow> ?I s'"
    if mid: "?I (emit (FetchFromFs f) s0) \<longrightarrow> ?I s" and fin: "finish e f res s = (r, s')"
    for f res s0 s r s'
  proof
    assume "?I s0"
    with mid have Is: "?I s" by simp
    show "?I s'"
    proof (cases r)
      case (Inl err)
      with finish_cache_failure fin have "tokensByFile s' = tokensByFile s" by blast
      with Is show ?thesis by simp
    next
      case (Inr v)
      have made: "pt (augment e (nextId s) (root_tokens res)) f res = Inr v"
        using finish_processTokens[OF pt fin[unfolded Inr]] .
      show ?thesis
      proof (intro allI impI)
        fix q w
        assume qw: "tokensByFile s' q = Some w \<and> truthy w"
        show "\<exists>t res. pt t q res = Inr w"
        proof (cases "q = f")
          case False
          with finish_cache_elsewhere[OF fin] qw Is show ?thesis by metis
        next
          case True
          show ?thesis
          proof (cases "debugMode e")
            case dbg: True
            from finish_cache_debug[OF fin dbg] qw Is show ?thesis by metis
          next
            case False
            from finish_commit_normal[OF fin[unfolded Inr] False] qw True made
            show ?thesis by auto
          qed
        qed
      qed
    qed
  qed
qed

section \<open>The camel-cased copy\<close>

lemma map_of_rev_distinct:
  "distinct (map fst xs) \<Longrightarrow> map_of (rev xs) = map_of xs"
proof (induction xs)
  case Nil
  show ?case by simp
next
  case (Cons a xs)
  obtain k v where a: "a = (k, v)" by (cases a)
  from Cons.prems a have k: "k \<notin> dom (map_of xs)" and d: "distinct (map fst xs)"
    by (auto simp: dom_map_of_conv_image_fst)
  have "map_of (rev (a # xs)) = [k \<mapsto> v] ++ map_of (rev xs)"
    by (simp add: a)
  also have "\<dots> = [k \<mapsto> v] ++ map_of xs" using Cons.IH[OF d] by simp
  also have "\<dots> = map_of xs ++ [k \<mapsto> v]" using k by (intro map_add_comm) simp
  also have "\<dots> = map_of (a # xs)" by (simp add: a)
  finally show ?case .
qed

lemma map_of_rev_last:
  "map_of (rev xs) c =
     (if filter (\<lambda>kv. fst kv = c) xs = [] then None
      else Some (snd (last (filter (\<lambda>kv. fst kv = c) xs))))"
  by (induction xs rule: rev_induct) auto

lemma map_of_foldl_update:
  "map_of (foldl (\<lambda>result (k, v). AList.update (g k v) v result) acc xs) =
     map_of acc ++ map_of (rev (map (\<lambda>(k, v). (g k v, v)) xs))"
proof (induction xs arbitrary: acc)
  case Nil
  show ?case by simp
next
  case (Cons a xs)
  obtain k v where a: "a = (k, v)" by (cases a)
  let ?M = "map_of (rev (map (\<lambda>(k, v). (g k v, v)) xs))"
  have "map_of (foldl (\<lambda>result (k, v). AList.update (g k v) v result) acc (a # xs)) =
          map_of (AList.update (g k v) v acc) ++ ?M"
    by (simp add: a Cons.IH)
  also have "\<dots> = (map_of acc)(g k v \<mapsto> v) ++ ?M"
    by (simp only: update_conv')
  also have "(map_of acc)(g k v \<mapsto> v) = map_of acc ++ [g k v \<mapsto> v]"
    by simp
  also have "(map_of acc ++ [g k v \<mapsto> v]) ++ ?M = map_of acc ++ ([g k v \<mapsto> v] ++ ?M)"
    by (simp only: map_add_assoc)
  also have "[g k v \<mapsto> v] ++ ?M = map_of (rev (map (\<lambda>(k, v). (g k v, v)) (a # xs)))"
    by (simp add: a)
  finally show ?case .
qed

lemma map_of_assign: "map_of (assign object source) = map_of object ++ map_of (rev source)"
  unfolding assign_def using map_of_foldl_update[of "\<lambda>k v. k" object source] by simp

lemma map_of_mapKeys:
  "map_of (mapKeys object iteratee) = map_of (rev (map (\<lambda>(k, v). (iteratee v k, v)) object))"
  unfolding mapKeys_def using map_of_foldl_update[of "\<lambda>k v. iteratee v k" "[]" object] by simp

lemma camelized_original_key:
  assumes "distinct (map fst tokens)" "(k, x) \<in> set tokens"
  shows "map_of (camelized h tokens) k = Some x"
proof -
  have "map_of tokens k = Some x" using assms by simp
  then show ?thesis
    by (simp add: camelized_def map_of_assign map_of_rev_distinct[OF assms(1)])
qed

lemma camelized_camel_key:
  assumes d: "distinct (map fst tokens)" and m: "(k, x) \<in> set tokens"
  shows "map_of (camelized h tokens) (camelCaseFunc h k) =
           Some (case map_of tokens (camelCaseFunc h k) of
                   Some y \<Rightarrow> y
                 | None \<Rightarrow> snd (last (filter (\<lambda>(k', y). camelCaseFunc h k' = camelCaseFunc h k) tokens)))"
proof -
  let ?c = "camelCaseFunc h k"
  let ?g = "\<lambda>(k', v). (camelCaseFunc h k', v :: jsval)"
  let ?same = "filter (\<lambda>(k', y). camelCaseFunc h k' = ?c) tokens"
  have f: "filter (\<lambda>kv. fst kv = ?c) (map ?g tokens) = map ?g ?same"
    by (induction tokens) auto
  have ne: "?same \<noteq> []" using m by (auto simp: filter_empty_conv)
  have "snd (last (map ?g ?same)) = snd (last ?same)"
    using ne by (simp add: last_map case_prod_beta)
  then have M: "map_of (mapKeys tokens (\<lambda>value key. camelCaseFunc h key)) ?c = Some (snd (last ?same))"
    using ne by (simp add: map_of_mapKeys map_of_rev_last f)
  show ?thesis
    by (cases "map_of tokens ?c")
       (simp_all add: camelized_def map_of_assign map_of_rev_distinct[OF d] map_add_def M)
qed

section \<open>The proxy target\<close>

lemma target_get_put:
  assumes "k \<noteq> Name ''__proto__''"
  shows "target_get h (target_put t k v) k = v"
  using assms by (simp add: target_get_def target_put_def)

section \<open>The claims\<close>

subsection \<open>C1: files matched by the ignore predicate\<close>

text \<open>
  C1 says that for a file matched by the ignore predicate the hook calls the handler
  that was registered before, with the module and the file name it received. The
  hook of the source names its first parameter \<^verbatim>\<open>module\<close> and passes
  \<^verbatim>\<open>m\<close>, which no scope binds. With the hook set up to ignore
  \<^verbatim>\<open>/proj/vendor/*\<close> in a process whose global object has no property
  \<^verbatim>\<open>m\<close>, loading \<^verbatim>\<open>/proj/vendor/reset.css\<close> ends in a
  ReferenceError, whatever the previous handler and the module are, and the previous
  handler does not run: the state is the one the hook was called in.
\<close>

theorem cssModulesHook_ignored_file_raises:
  "truthy (buildExceptionChecker (node vendor_env) (ignore (opts vendor_env)) ''/proj/vendor/reset.css'') \<and>
   cssModulesHook vendor_env existingHook module ''/proj/vendor/reset.css'' s =
     (Inl (ReferenceError ''m is not defined''), s)"
proof -
  have t: "truthy (buildExceptionChecker (node vendor_env) (ignore (opts vendor_env)) ''/proj/vendor/reset.css'')"
    by code_simp
  have g: "globals (node vendor_env) ''m'' = None"
    by code_simp
  show ?thesis using t g by (simp add: cssModulesHook_def)
qed

subsection \<open>C2: writing a property of the proxy\<close>

text \<open>
  C2 says that a write \<^verbatim>\<open>P[k] = v\<close> is read back. The set trap of lines
  179-182 belongs to the proxy that the hook keeps in \<^verbatim>\<open>require.cache\<close>;
  the object an importing module holds is the second proxy, which has no set trap, so
  the value is stored on that proxy's own target, which its get trap never reads for
  an ordinary key. After \<^verbatim>\<open>styles = require('/proj/a.css')\<close> the write
  \<^verbatim>\<open>styles.title = "bar"\<close> succeeds and \<^verbatim>\<open>styles.title\<close> is the
  token of the file; \<^verbatim>\<open>styles.foo = "bar"\<close> succeeds and
  \<^verbatim>\<open>styles.foo\<close> is \<^verbatim>\<open>undefined\<close>.
\<close>

theorem exported_proxy_write_is_not_read_back:
  "fst (cssModulesHook (project_env False) None (Obj 0 []) ''/proj/a.css'' fresh) = Inr () \<and>
   fst (exported_set (exported_target ''/proj/a.css'') (Name ''title'') (Str ''bar'')) = True \<and>
   map_option fst
     (exported_get 2 (project_env False)
        (snd (exported_set (exported_target ''/proj/a.css'') (Name ''title'') (Str ''bar'')))
        required_a (Name ''title'')) =
     Some (Inr (Str ''_a_title'')) \<and>
   fst (exported_set (exported_target ''/proj/a.css'') (Name ''foo'') (Str ''bar'')) = True \<and>
   map_option fst
     (exported_get 2 (project_env False)
        (snd (exported_set (exported_target ''/proj/a.css'') (Name ''foo'') (Str ''bar'')))
        required_a (Name ''foo'')) =
     Some (Inr Undefined)"
  by code_simp

text \<open>
  On the inner proxy, where the set trap is, the write is read back when the value is
  truthy and the key is neither an inspect symbol nor \<^verbatim>\<open>__proto__\<close>, and it
  is not when the value is falsy: the get trap tests \<^verbatim>\<open>target[name]\<close> for
  truthiness (line 159), so after writing the empty string the read fetches the file.
\<close>

lemma inner_proxy_write_then_read:
  assumes "truthy v" and "\<not> is_inspect_custom k" and "k \<noteq> Name ''__proto__''"
  shows "fst (proxy_set t k v) = True \<and>
         proxy_get n e filename (snd (proxy_set t k v)) s k =
           Some (Inr v, snd (proxy_set t k v), s)"
  using assms by (simp add: proxy_set_def proxy_get_def target_get_put Let_def)

lemma inner_proxy_empty_string_is_not_read_back:
  "fst (proxy_set new_target (Name ''title'') (Str '''')) = True \<and>
   map_option fst
     (proxy_get 2 (project_env False) ''/proj/a.css''
        (snd (proxy_set new_target (Name ''title'') (Str ''''))) fresh (Name ''title'')) =
     Some (Inr (Str ''_a_title''))"
  by code_simp

subsection \<open>C3: two fetches in debug mode\<close>

text \<open>
  C3: in debug mode, when the token cache has no entry for the path of a file (as
  after setup), two successive successful fetches of the file each start the runner
  on that path, and after each of them the token cache still has no entry for the
  path.
\<close>

theorem debug_fetch_twice_runs_pipeline_twice:
  assumes dbg: "debugMode e"
    and p: "resolveFilename (node e) to frm = Inr p"
    and none: "tokensByFile s p = None"
    and f1: "fetch n e s to frm = Some (Inr t1, s1)"
    and f2: "fetch m e s1 to frm = Some (Inr t2, s2)"
  shows "tokensByFile s1 p = None \<and> tokensByFile s2 p = None \<and>
         process_count p s < process_count p s1 \<and> process_count p s1 < process_count p s2"
proof -
  have c1: "tokensByFile s1 = tokensByFile s"
    using debug_cache_kept[OF dbg, of n] f1 by blast
  have c2: "tokensByFile s2 = tokensByFile s1"
    using debug_cache_kept[OF dbg, of m] f2 by blast
  have m0: "\<not> truthy (cache_get s p)" using none by (simp add: cache_get_None)
  have m1: "\<not> truthy (cache_get s1 p)" using none c1 by (simp add: cache_get_None)
  from miss_runs_pipeline[OF f1 p m0] miss_runs_pipeline[OF f2 p m1] c1 c2 none
  show ?thesis by simp
qed

text \<open>The theorem on \<open>a.css\<close>; the second fetch returns a new token object.\<close>

theorem debug_fetch_twice_runs_pipeline_twice_witness:
  "debugMode (project_env True) \<and>
   resolveFilename (node (project_env True)) ''/proj/a.css'' ''/proj/a.css'' = Inr ''/proj/a.css'' \<and>
   tokensByFile fresh ''/proj/a.css'' = None \<and>
   map_option fst (fetch 2 (project_env True) fresh ''/proj/a.css'' ''/proj/a.css'') =
     Some (Inr (Obj 0 [(''title'', Str ''_a_title'')])) \<and>
   map_option fst
     (fetch 2 (project_env True)
        (snd (the (fetch 2 (project_env True) fresh ''/proj/a.css'' ''/proj/a.css'')))
        ''/proj/a.css'' ''/proj/a.css'') =
     Some (Inr (Obj 1 [(''title'', Str ''_a_title'')])) \<and>
   tokensByFile (snd (the (fetch 2 (project_env True) fresh ''/proj/a.css'' ''/proj/a.css'')))
     ''/proj/a.css'' = None \<and>
   process_count ''/proj/a.css'' fresh <
     process_count ''/proj/a.css''
       (snd (the (fetch 2 (project_env True) fresh ''/proj/a.css'' ''/proj/a.css''))) \<and>
   process_count ''/proj/a.css''
       (snd (the (fetch 2 (project_env True) fresh ''/proj/a.css'' ''/proj/a.css''))) <
     process_count ''/proj/a.css''
       (snd (the (fetch 2 (project_env True)
          (snd (the (fetch 2 (project_env True) fresh ''/proj/a.css'' ''/proj/a.css'')))
          ''/proj/a.css'' ''/proj/a.css'')))"
proof -
  let ?s1 = "snd (the (fetch 2 (project_env True) fresh ''/proj/a.css'' ''/proj/a.css''))"
  have dbg: "debugMode (project_env True)" by code_simp
  have p: "resolveFilename (node (project_env True)) ''/proj/a.css'' ''/proj/a.css'' = Inr ''/proj/a.css''"
    by code_simp
  have none: "tokensByFile fresh ''/proj/a.css'' = None"
    by (simp add: fresh_def setup_state_def)
  have ev1: "map_option fst (fetch 2 (project_env True) fresh ''/proj/a.css'' ''/proj/a.css'') =
     Some (Inr (Obj 0 [(''title'', Str ''_a_title'')]))"
    by code_simp
  have ev2: "map_option fst (fetch 2 (project_env True) ?s1 ''/proj/a.css'' ''/proj/a.css'') =
     Some (Inr (Obj 1 [(''title'', Str ''_a_title'')]))"
    by code_simp
  from debug_fetch_twice_runs_pipeline_twice[OF dbg p none fetched[OF ev1] fetched[OF ev2]]
    dbg p none ev1 ev2
  show ?thesis by simp
qed

subsection \<open>C4: two fetches in normal mode\<close>

text \<open>
  C4: in normal mode, after a fetch of a file has returned a mapping, a second fetch
  of the same file returns the same object, identity included, and does nothing but
  log the cache hit: the file is not read, not preprocessed, and the runner is not
  started. (The first fetch must have returned a truthy value, which a mapping object
  is; the file may or may not import others.)
\<close>

theorem normal_fetch_again_is_cache_hit:
  assumes nd: "\<not> debugMode e"
    and p: "resolveFilename (node e) to frm = Inr p"
    and f1: "fetch n e s to frm = Some (Inr t1, s1)"
    and tr: "truthy t1"
  shows "fetch (Suc m) e s1 to frm =
           Some (Inr t1, emit (DebugTokens t1) (emit (FetchFromCache p) s1))"
proof -
  from f1 obtain k where n: "n = Suc k" by (rule fetch_returns_Suc)
  have cached: "cache_get s1 p = t1"
  proof (cases "truthy (cache_get s p)")
    case True
    from f1[unfolded n fetch_hit[OF p True]] show ?thesis by auto
  next
    case False
    from fetch_miss_cases[OF f1[unfolded n] p False]
    obtain res s2 where "finish e p res s2 = (Inr t1, s1)" by auto
    from finish_commit_normal[OF this nd] show ?thesis by (simp add: cache_get_def)
  qed
  with tr have "truthy (cache_get s1 p)" by simp
  from fetch_hit[OF p this] cached show ?thesis by simp
qed

text \<open>The theorem on \<open>a.css\<close>.\<close>

theorem normal_fetch_again_is_cache_hit_witness:
  "\<not> debugMode (project_env False) \<and>
   resolveFilename (node (project_env False)) ''/proj/a.css'' ''/proj/a.css'' = Inr ''/proj/a.css'' \<and>
   map_option fst (fetch 2 (project_env False) fresh ''/proj/a.css'' ''/proj/a.css'') =
     Some (Inr (Obj 0 [(''title'', Str ''_a_title'')])) \<and>
   truthy (Obj 0 [(''title'', Str ''_a_title'')]) \<and>
   fetch 1 (project_env False)
       (snd (the (fetch 2 (project_env False) fresh ''/proj/a.css'' ''/proj/a.css'')))
       ''/proj/a.css'' ''/proj/a.css'' =
     Some (Inr (Obj 0 [(''title'', Str ''_a_title'')]),
           emit (DebugTokens (Obj 0 [(''title'', Str ''_a_title'')]))
             (emit (FetchFromCache ''/proj/a.css'')
                (snd (the (fetch 2 (project_env False) fresh ''/proj/a.css'' ''/proj/a.css'')))))"
proof -
  have nd: "\<not> debugMode (project_env False)" by code_simp
  have p: "resolveFilename (node (project_env False)) ''/proj/a.css'' ''/proj/a.css'' = Inr ''/proj/a.css''"
    by code_simp
  have ev: "map_option fst (fetch 2 (project_env False) fresh ''/proj/a.css'' ''/proj/a.css'') =
     Some (Inr (Obj 0 [(''title'', Str ''_a_title'')]))"
    by code_simp
  have tr: "truthy (Obj 0 [(''title'', Str ''_a_title'')])" by simp
  from normal_fetch_again_is_cache_hit[OF nd p fetched[OF ev] tr, of 0] nd p ev tr
  show ?thesis by simp
qed

subsection \<open>C5: camel-cased keys\<close>

text \<open>
  C5, as amended: with \<^verbatim>\<open>camelCase\<close> on and no
  \<^verbatim>\<open>processTokens\<close>, the mapping that a fetch produces from the runner's
  token mapping binds every key \<open>k\<close> of that mapping to its value, and binds the
  camel-cased form of \<open>k\<close> to the value the original mapping has for that form when
  it is one of its keys, and otherwise to the value of the last key, in enumeration
  order, that has the same camel-cased form.
\<close>

theorem camelCase_fetch_mapping:
  assumes cc: "camelCase (opts e)"
    and npt: "processTokens (opts e) = None"
    and f: "fetch (Suc n) e s to frm = Some (Inr v, s')"
    and p: "resolveFilename (node e) to frm = Inr p"
    and miss: "\<not> truthy (cache_get s p)"
  shows "\<exists>src s1 res s2.
           read_source e p (emit (FetchFromFs p) s) = (Inr src, s1) \<and>
           run_pipeline n e (emit (Process p) s1) (runner (opts e) src p) = Some (Inr res, s2) \<and>
           (distinct (map fst (root_tokens res)) \<longrightarrow>
             (\<forall>(k, x) \<in> set (root_tokens res).
                own_lookup v (Name k) = Some x \<and>
                own_lookup v (Name (camelCaseFunc (node e) k)) =
                  Some (case map_of (root_tokens res) (camelCaseFunc (node e) k) of
                          Some y \<Rightarrow> y
                        | None \<Rightarrow>
                            snd (last (filter (\<lambda>(k', y). camelCaseFunc (node e) k' = camelCaseFunc (node e) k)
                                         (root_tokens res))))))"
proof -
  from fetch_miss_cases[OF f p miss]
  obtain src s1 res s2 where
    rs: "read_source e p (emit (FetchFromFs p) s) = (Inr src, s1)" and
    run: "run_pipeline n e (emit (Process p) s1) (runner (opts e) src p) = Some (Inr res, s2)" and
    fin: "finish e p res s2 = (Inr v, s')"
    by auto
  have v: "v = Obj (Suc (nextId s2)) (camelized (node e) (root_tokens res))"
    using finish_no_processTokens[OF npt fin] cc by (simp add: augment_def)
  have "own_lookup v (Name k) = Some x \<and>
        own_lookup v (Name (camelCaseFunc (node e) k)) =
          Some (case map_of (root_tokens res) (camelCaseFunc (node e) k) of
                  Some y \<Rightarrow> y
                | None \<Rightarrow>
                    snd (last (filter (\<lambda>(k', y). camelCaseFunc (node e) k' = camelCaseFunc (node e) k)
                                 (root_tokens res))))"
    if "distinct (map fst (root_tokens res))" "(k, x) \<in> set (root_tokens res)" for k x
    using camelized_original_key[OF that] camelized_camel_key[OF that] by (simp add: v)
  with rs run show ?thesis by blast
qed

text \<open>The theorem on \<open>c.css\<close>, at the key \<^verbatim>\<open>foo-bar\<close>.\<close>

theorem camelCase_fetch_mapping_witness:
  "camelCase (opts camel_env) \<and>
   processTokens (opts camel_env) = None \<and>
   map_option fst (fetch 2 camel_env fresh ''/proj/c.css'' ''/proj/c.css'') =
     Some (Inr (Obj 1 [(''fooBar'', Str ''_c_foo_bar''), (''foo-bar'', Str ''_c_foo-bar''),
                       (''foo_bar'', Str ''_c_foo_bar'')])) \<and>
   resolveFilename (node camel_env) ''/proj/c.css'' ''/proj/c.css'' = Inr ''/proj/c.css'' \<and>
   \<not> truthy (cache_get fresh ''/proj/c.css'') \<and>
   own_lookup (Obj 1 [(''fooBar'', Str ''_c_foo_bar''), (''foo-bar'', Str ''_c_foo-bar''),
                      (''foo_bar'', Str ''_c_foo_bar'')]) (Name ''foo-bar'') =
     Some (Str ''_c_foo-bar'') \<and>
   own_lookup (Obj 1 [(''fooBar'', Str ''_c_foo_bar''), (''foo-bar'', Str ''_c_foo-bar''),
                      (''foo_bar'', Str ''_c_foo_bar'')])
       (Name (camelCaseFunc (node camel_env) ''foo-bar'')) =
     Some (Str ''_c_foo_bar'')"
proof -
  let ?v = "Obj 1 [(''fooBar'', Str ''_c_foo_bar''), (''foo-bar'', Str ''_c_foo-bar''),
                   (''foo_bar'', Str ''_c_foo_bar'')]"
  let ?R = "\<lparr>css = ''._c_foo-bar { } ._c_foo_bar { }'', messages = [],
             root_tokens = [(''foo-bar'', Str ''_c_foo-bar''), (''foo_bar'', Str ''_c_foo_bar'')]\<rparr>"
  have cc: "camelCase (opts camel_env)"
    by (simp add: camel_env_def project_options_def)
  have npt: "processTokens (opts camel_env) = None"
    by (simp add: camel_env_def project_options_def)
  have ev: "map_option fst (fetch 2 camel_env fresh ''/proj/c.css'' ''/proj/c.css'') = Some (Inr ?v)"
    by code_simp
  have p: "resolveFilename (node camel_env) ''/proj/c.css'' ''/proj/c.css'' = Inr ''/proj/c.css''"
    by code_simp
  have miss: "\<not> truthy (cache_get fresh ''/proj/c.css'')"
    by (simp add: fresh_def setup_state_def cache_get_def)
  have c1: "camelCaseFunc (node camel_env) ''foo-bar'' = ''fooBar''" by code_simp
  have c2: "camelCaseFunc (node camel_env) ''foo_bar'' = ''fooBar''" by code_simp
  have f: "fetch (Suc 1) camel_env fresh ''/proj/c.css'' ''/proj/c.css'' =
             Some (Inr ?v, snd (the (fetch 2 camel_env fresh ''/proj/c.css'' ''/proj/c.css'')))"
    using fetched[OF ev] by (simp add: numeral_2_eq_2)
  from camelCase_fetch_mapping[OF cc npt f p miss]
  obtain src s1 res s2 where
    run: "run_pipeline 1 camel_env (emit (Process ''/proj/c.css'') s1)
            (runner (opts camel_env) src ''/proj/c.css'') = Some (Inr res, s2)" and
    imp: "distinct (map fst (root_tokens res)) \<longrightarrow>
           (\<forall>(k, x) \<in> set (root_tokens res).
              own_lookup ?v (Name k) = Some x \<and>
              own_lookup ?v (Name (camelCaseFunc (node camel_env) k)) =
                Some (case map_of (root_tokens res) (camelCaseFunc (node camel_env) k) of
                        Some y \<Rightarrow> y
                      | None \<Rightarrow>
                          snd (last (filter (\<lambda>(k', y). camelCaseFunc (node camel_env) k' =
                                                         camelCaseFunc (node camel_env) k)
                                       (root_tokens res)))))"
    by blast
  have res: "res = ?R"
    using run by (simp add: camel_env_def project_options_def project_runner_def)
  from imp[unfolded res]
  have "own_lookup ?v (Name ''foo-bar'') = Some (Str ''_c_foo-bar'') \<and>
        own_lookup ?v (Name (camelCaseFunc (node camel_env) ''foo-bar'')) = Some (Str ''_c_foo_bar'')"
    by (simp add: c1 c2)
  with cc npt ev p miss show ?thesis by blast
qed

text \<open>
  C5 as stated fails when two keys share a camel-cased form that is not itself a key:
  \<open>c.css\<close> has the classes \<^verbatim>\<open>foo-bar\<close> and \<^verbatim>\<open>foo_bar\<close>,
  and \<^verbatim>\<open>fooBar\<close>, the camel-cased form of \<^verbatim>\<open>foo-bar\<close>, is bound
  to the value of \<^verbatim>\<open>foo_bar\<close>.
\<close>

theorem camelCase_later_key_wins_counterexample:
  "camelCaseFunc (node camel_env) ''foo-bar'' = ''fooBar'' \<and>
   map_option fst (fetch 2 camel_env fresh ''/proj/c.css'' ''/proj/c.css'') =
     Some (Inr (Obj 1 [(''fooBar'', Str ''_c_foo_bar''), (''foo-bar'', Str ''_c_foo-bar''),
                       (''foo_bar'', Str ''_c_foo_bar'')]))"
  by code_simp

subsection \<open>C6: the result of processTokens\<close>

text \<open>
  C6: with a \<^verbatim>\<open>processTokens\<close> function configured, a fetch that does not
  find the file in the cache returns exactly what the function returned for the
  (possibly camel-cased) mapping of this run, the absolute path and the runner's
  result; in normal mode the value a fetch returns is the one the cache holds for the
  path afterwards; and when every mapping in the cache was returned by the function
  (as after setup, when the cache is empty), so is the value any fetch returns, cache
  hits included, and so is every mapping in the cache afterwards.
\<close>

theorem processTokens_result_is_the_mapping:
  assumes pt: "processTokens (opts e) = Some pt"
    and f: "fetch n e s to frm = Some (Inr v, s')"
    and p: "resolveFilename (node e) to frm = Inr p"
  shows "(\<not> truthy (cache_get s p) \<longrightarrow>
            (\<exists>k src s1 res s2. n = Suc k \<and>
               read_source e p (emit (FetchFromFs p) s) = (Inr src, s1) \<and>
               run_pipeline k e (emit (Process p) s1) (runner (opts e) src p) = Some (Inr res, s2) \<and>
               pt (augment e (nextId s2) (root_tokens res)) p res = Inr v)) \<and>
         (\<not> debugMode e \<longrightarrow> tokensByFile s' p = Some v) \<and>
         ((\<forall>q w. tokensByFile s q = Some w \<and> truthy w \<longrightarrow> (\<exists>t res. pt t q res = Inr w)) \<longrightarrow>
            (\<exists>t res. pt t p res = Inr v) \<and>
            (\<forall>q w. tokensByFile s' q = Some w \<and> truthy w \<longrightarrow> (\<exists>t res. pt t q res = Inr w)))"
proof -
  from f obtain k where n: "n = Suc k" by (rule fetch_returns_Suc)
  have A: "\<exists>k src s1 res s2. n = Suc k \<and>
               read_source e p (emit (FetchFromFs p) s) = (Inr src, s1) \<and>
               run_pipeline k e (emit (Process p) s1) (runner (opts e) src p) = Some (Inr res, s2) \<and>
               pt (augment e (nextId s2) (root_tokens res)) p res = Inr v \<and>
               finish e p res s2 = (Inr v, s')"
    if miss: "\<not> truthy (cache_get s p)"
  proof -
    from fetch_miss_cases[OF f[unfolded n] p miss]
    obtain src s1 res s2 where
      rs: "read_source e p (emit (FetchFromFs p) s) = (Inr src, s1)" and
      run: "run_pipeline k e (emit (Process p) s1) (runner (opts e) src p) = Some (Inr res, s2)" and
      fin: "finish e p res s2 = (Inr v, s')"
      by auto
    from finish_processTokens[OF pt fin] rs run fin n show ?thesis by blast
  qed
  have hit: "v = cache_get s p \<and> tokensByFile s' = tokensByFile s" if h: "truthy (cache_get s p)"
    using f[unfolded n fetch_hit[OF p h]] by auto
  have B: "tokensByFile s' p = Some v" if nd: "\<not> debugMode e"
  proof (cases "truthy (cache_get s p)")
    case True
    with hit cache_get_truthy[OF True] show ?thesis by simp
  next
    case False
    from A[OF False] obtain res s2 where "finish e p res s2 = (Inr v, s')" by blast
    from finish_commit_normal[OF this nd] show ?thesis .
  qed
  have C: "(\<exists>t res. pt t p res = Inr v) \<and>
           (\<forall>q w. tokensByFile s' q = Some w \<and> truthy w \<longrightarrow> (\<exists>t res. pt t q res = Inr w))"
    if I: "\<forall>q w. tokensByFile s q = Some w \<and> truthy w \<longrightarrow> (\<exists>t res. pt t q res = Inr w)"
  proof
    show "\<exists>t res. pt t p res = Inr v"
    proof (cases "truthy (cache_get s p)")
      case True
      with hit cache_get_truthy[OF True] I show ?thesis by metis
    next
      case False
      from A[OF False] show ?thesis by blast
    qed
    show "\<forall>q w. tokensByFile s' q = Some w \<and> truthy w \<longrightarrow> (\<exists>t res. pt t q res = Inr w)"
      using processTokens_invariant[OF pt, of n] f I by blast
  qed
  from A B C show ?thesis by blast
qed

text \<open>The theorem on \<open>a.css\<close> with a function that upper-cases every value.\<close>

theorem processTokens_result_is_the_mapping_witness:
  "processTokens (opts upper_env) = Some upper_tokens \<and>
   map_option fst (fetch 2 upper_env fresh ''/proj/a.css'' ''/proj/a.css'') =
     Some (Inr (Obj 0 [(''title'', Str ''_A_TITLE'')])) \<and>
   resolveFilename (node upper_env) ''/proj/a.css'' ''/proj/a.css'' = Inr ''/proj/a.css'' \<and>
   \<not> truthy (cache_get fresh ''/proj/a.css'') \<and>
   \<not> debugMode upper_env \<and>
   (\<exists>k src s1 res s2. 2 = Suc k \<and>
      read_source upper_env ''/proj/a.css'' (emit (FetchFromFs ''/proj/a.css'') fresh) = (Inr src, s1) \<and>
      run_pipeline k upper_env (emit (Process ''/proj/a.css'') s1)
        (runner (opts upper_env) src ''/proj/a.css'') = Some (Inr res, s2) \<and>
      upper_tokens (augment upper_env (nextId s2) (root_tokens res)) ''/proj/a.css'' res =
        Inr (Obj 0 [(''title'', Str ''_A_TITLE'')])) \<and>
   tokensByFile (snd (the (fetch 2 upper_env fresh ''/proj/a.css'' ''/proj/a.css''))) ''/proj/a.css'' =
     Some (Obj 0 [(''title'', Str ''_A_TITLE'')])"
proof -
  have pt: "processTokens (opts upper_env) = Some upper_tokens"
    by (simp add: upper_env_def project_options_def)
  have ev: "map_option fst (fetch 2 upper_env fresh ''/proj/a.css'' ''/proj/a.css'') =
     Some (Inr (Obj 0 [(''title'', Str ''_A_TITLE'')]))"
    by code_simp
  have p: "resolveFilename (node upper_env) ''/proj/a.css'' ''/proj/a.css'' = Inr ''/proj/a.css''"
    by code_simp
  have miss: "\<not> truthy (cache_get fresh ''/proj/a.css'')"
    by (simp add: fresh_def setup_state_def cache_get_def)
  have nd: "\<not> debugMode upper_env" by code_simp
  from processTokens_result_is_the_mapping[OF pt fetched[OF ev] p] miss nd pt ev p
  show ?thesis by blast
qed

subsection \<open>C7: a fetch that fails\<close>

text \<open>
  C7, as amended. For a fetch that does not find the path in the cache: when the file
  cannot be read, the fetch returns the error of the read and has only logged; when
  the runner throws, or a nested fetch fails and the runner passes the failure on, the
  fetch returns that error and the state is the one the run left, so the failing call
  itself stores nothing in the token cache. In every failed fetch an entry of the
  cache differs afterwards only for a path that a nested fetch read from the file
  system during the call (for the failed path itself, only if such a nested fetch of
  that same path happened), and the cache is unchanged when the run on the text read
  imports nothing.
\<close>

theorem failed_fetch_propagates_and_stores_nothing:
  assumes p: "resolveFilename (node e) to frm = Inr p"
    and miss: "\<not> truthy (cache_get s p)"
  shows "(\<forall>e0. readFileSync (node e) p = Inl e0 \<longrightarrow>
            fetch (Suc n) e s to frm =
              Some (Inl e0, emit (ReadFile p) (emit (FetchFromFs p) s))) \<and>
         (\<forall>src s1 err s2.
            read_source e p (emit (FetchFromFs p) s) = (Inr src, s1) \<and>
            run_pipeline n e (emit (Process p) s1) (runner (opts e) src p) = Some (Inl err, s2) \<longrightarrow>
            fetch (Suc n) e s to frm = Some (Inl err, s2)) \<and>
         (\<forall>src s1 err.
            read_source e p (emit (FetchFromFs p) s) = (Inr src, s1) \<and>
            runner (opts e) src p = Throw err \<longrightarrow>
            fetch (Suc (Suc n)) e s to frm = Some (Inl err, emit (Process p) s1)) \<and>
         (\<forall>s0 to' frm' k err s1.
            fetch n e s0 to' frm' = Some (Inl err, s1) \<longrightarrow>
            run_pipeline (Suc n) e s0 (Fetch to' frm' k) = Some (Inl err, s1)) \<and>
         (\<forall>err s'.
            fetch (Suc n) e s to frm = Some (Inl err, s') \<longrightarrow>
            (\<forall>x. tokensByFile s' x \<noteq> tokensByFile s x \<longrightarrow>
                 fs_count x s + (if x = p then 2 else 1) \<le> fs_count x s') \<and>
            (\<forall>src s1. read_source e p (emit (FetchFromFs p) s) = (Inr src, s1) \<and>
                      no_imports (runner (opts e) src p) \<longrightarrow>
                      tokensByFile s' = tokensByFile s))"
proof -
  have A: "fetch (Suc n) e s to frm = Some (Inl e0, emit (ReadFile p) (emit (FetchFromFs p) s))"
    if "readFileSync (node e) p = Inl e0" for e0
    using read_source_failure[OF that, of "emit (FetchFromFs p) s"] p miss by simp
  have B: "fetch (Suc n) e s to frm = Some (Inl err, s2)"
    if "read_source e p (emit (FetchFromFs p) s) = (Inr src, s1) \<and>
        run_pipeline n e (emit (Process p) s1) (runner (opts e) src p) = Some (Inl err, s2)"
    for src s1 err s2
    using that p miss by simp
  have C: "fetch (Suc (Suc n)) e s to frm = Some (Inl err, emit (Process p) s1)"
    if "read_source e p (emit (FetchFromFs p) s) = (Inr src, s1) \<and>
        runner (opts e) src p = Throw err"
    for src s1 err
    using that p miss by simp
  have D: "run_pipeline (Suc n) e s0 (Fetch to' frm' k) = Some (Inl err, s1)"
    if "fetch n e s0 to' frm' = Some (Inl err, s1)" for s0 to' frm' k err s1
    using that by simp
  have E: "(\<forall>x. tokensByFile s' x \<noteq> tokensByFile s x \<longrightarrow>
                 fs_count x s + (if x = p then 2 else 1) \<le> fs_count x s') \<and>
           (\<forall>src s1. read_source e p (emit (FetchFromFs p) s) = (Inr src, s1) \<and>
                      no_imports (runner (opts e) src p) \<longrightarrow>
                      tokensByFile s' = tokensByFile s)"
    if f: "fetch (Suc n) e s to frm = Some (Inl err, s')" for err s'
  proof -
    let ?s0 = "emit (FetchFromFs p) s"
    have fs0: "fs_count x ?s0 = fs_count x s + (if x = p then 1 else 0)" for x
      by (simp add: fs_count_def)
    from fetch_miss_cases[OF f p miss]
    consider
      (read) "read_source e p ?s0 = (Inl err, s')"
    | (run) src s1 where "read_source e p ?s0 = (Inr src, s1)"
        "run_pipeline n e (emit (Process p) s1) (runner (opts e) src p) = Some (Inl err, s')"
    | (fin) src s1 res s2 where "read_source e p ?s0 = (Inr src, s1)"
        "run_pipeline n e (emit (Process p) s1) (runner (opts e) src p) = Some (Inr res, s2)"
        "finish e p res s2 = (Inl err, s')"
      by auto
    then show ?thesis
    proof cases
      case read
      have "tokensByFile s' = tokensByFile s"
        using read_source_cases[OF read, of p] by simp
      then show ?thesis by simp
    next
      case run
      let ?sp = "emit (Process p) s1"
      have c1: "tokensByFile s1 = tokensByFile s"
        using read_source_cases[OF run(1), of p] by simp
      have n1: "fs_count x ?sp = fs_count x s + (if x = p then 1 else 0)" for x
        using read_source_fs_count[OF run(1), of x] fs0[of x] by (simp add: fs_count_def)
      have A: "fs_count x s + (if x = p then 2 else 1) \<le> fs_count x s'"
        if "tokensByFile s' x \<noteq> tokensByFile s x" for x
      proof -
        from that c1 have "tokensByFile s' x \<noteq> tokensByFile ?sp x" by simp
        with cache_change_read[of n e] run(2) have "fs_count x ?sp < fs_count x s'" by blast
        with n1[of x] show ?thesis by (cases "x = p") simp_all
      qed
      have C: "tokensByFile s' = tokensByFile s"
        if "read_source e p ?s0 = (Inr src', s1')" "no_imports (runner (opts e) src' p)" for src' s1'
      proof -
        from that(1) run(1) have "src' = src" by simp
        with run_pipeline_no_imports[OF run(2)] that(2) c1 show ?thesis by simp
      qed
      from A C show ?thesis by blast
    next
      case fin
      let ?sp = "emit (Process p) s1"
      have c1: "tokensByFile s1 = tokensByFile s"
        using read_source_cases[OF fin(1), of p] by simp
      have c2: "tokensByFile s' = tokensByFile s2"
        using finish_cache_failure[OF fin(3)] .
      have n1: "fs_count x ?sp = fs_count x s + (if x = p then 1 else 0)" for x
        using read_source_fs_count[OF fin(1), of x] fs0[of x] by (simp add: fs_count_def)
      have n2: "fs_count x s2 \<le> fs_count x s'" for x
        using finish_trace[OF fin(3), of x] by (auto simp: fs_count_def)
      have A: "fs_count x s + (if x = p then 2 else 1) \<le> fs_count x s'"
        if "tokensByFile s' x \<noteq> tokensByFile s x" for x
      proof -
        from that c1 c2 have "tokensByFile s2 x \<noteq> tokensByFile ?sp x" by simp
        with cache_change_read[of n e] fin(2) have "fs_count x ?sp < fs_count x s2" by blast
        with n1[of x] n2[of x] show ?thesis by (cases "x = p") simp_all
      qed
      have C: "tokensByFile s' = tokensByFile s"
        if "read_source e p ?s0 = (Inr src', s1')" "no_imports (runner (opts e) src' p)" for src' s1'
      proof -
        from that(1) fin(1) have "src' = src" by simp
        with run_pipeline_no_imports[OF fin(2)] that(2) c1 c2 show ?thesis by simp
      qed
      from A C show ?thesis by blast
    qed
  qed
  from A B C D E show ?thesis by blast
qed

text \<open>
  The theorem on a file that does not exist, on \<open>broken.css\<close>, whose run throws at
  once, and on \<open>bad.css\<close>, whose second import fails.
\<close>

theorem failed_fetch_propagates_and_stores_nothing_witness:
  "resolveFilename (node (project_env False)) ''/proj/none.css'' ''/proj/none.css'' = Inr ''/proj/none.css'' \<and>
   \<not> truthy (cache_get fresh ''/proj/none.css'') \<and>
   readFileSync (node (project_env False)) ''/proj/none.css'' = Inl (FileNotFound ''/proj/none.css'') \<and>
   fetch 1 (project_env False) fresh ''/proj/none.css'' ''/proj/none.css'' =
     Some (Inl (FileNotFound ''/proj/none.css''),
           emit (ReadFile ''/proj/none.css'') (emit (FetchFromFs ''/proj/none.css'') fresh)) \<and>
   resolveFilename (node (project_env False)) ''/proj/broken.css'' ''/proj/broken.css'' = Inr ''/proj/broken.css'' \<and>
   \<not> truthy (cache_get fresh ''/proj/broken.css'') \<and>
   read_source (project_env False) ''/proj/broken.css'' (emit (FetchFromFs ''/proj/broken.css'') fresh) =
     (Inr ''.title { color: red'',
      emit (ReadFile ''/proj/broken.css'') (emit (FetchFromFs ''/proj/broken.css'') fresh)) \<and>
   runner (opts (project_env False)) ''.title { color: red'' ''/proj/broken.css'' =
     Throw (TransformationError ''Unclosed block'') \<and>
   fetch 2 (project_env False) fresh ''/proj/broken.css'' ''/proj/broken.css'' =
     Some (Inl (TransformationError ''Unclosed block''),
           emit (Process ''/proj/broken.css'')
             (emit (ReadFile ''/proj/broken.css'') (emit (FetchFromFs ''/proj/broken.css'') fresh))) \<and>
   resolveFilename (node (project_env False)) ''/proj/bad.css'' ''/proj/bad.css'' = Inr ''/proj/bad.css'' \<and>
   \<not> truthy (cache_get fresh ''/proj/bad.css'') \<and>
   map_option fst (fetch 4 (project_env False) fresh ''/proj/bad.css'' ''/proj/bad.css'') =
     Some (Inl (FileNotFound ''/proj/missing.css'')) \<and>
   tokensByFile (snd (the (fetch 4 (project_env False) fresh ''/proj/bad.css'' ''/proj/bad.css'')))
     ''/proj/a.css'' \<noteq> tokensByFile fresh ''/proj/a.css'' \<and>
   fs_count ''/proj/a.css'' fresh + 1 \<le>
     fs_count ''/proj/a.css''
       (snd (the (fetch 4 (project_env False) fresh ''/proj/bad.css'' ''/proj/bad.css'')))"
proof -
  let ?e = "project_env False"
  have p1: "resolveFilename (node ?e) ''/proj/none.css'' ''/proj/none.css'' = Inr ''/proj/none.css''"
    by code_simp
  have m1: "\<not> truthy (cache_get fresh ''/proj/none.css'')"
    by (simp add: fresh_def setup_state_def cache_get_def)
  have rd: "readFileSync (node ?e) ''/proj/none.css'' = Inl (FileNotFound ''/proj/none.css'')"
    by code_simp
  have p2: "resolveFilename (node ?e) ''/proj/broken.css'' ''/proj/broken.css'' = Inr ''/proj/broken.css''"
    by code_simp
  have m2: "\<not> truthy (cache_get fresh ''/proj/broken.css'')"
    by (simp add: fresh_def setup_state_def cache_get_def)
  have rs: "read_source ?e ''/proj/broken.css'' (emit (FetchFromFs ''/proj/broken.css'') fresh) =
     (Inr ''.title { color: red'',
      emit (ReadFile ''/proj/broken.css'') (emit (FetchFromFs ''/proj/broken.css'') fresh))"
    by (simp add: read_source_def project_env_def project_host_def project_files_def
        project_options_def)
  have th: "runner (opts ?e) ''.title { color: red'' ''/proj/broken.css'' =
     Throw (TransformationError ''Unclosed block'')"
    by (simp add: project_env_def project_options_def project_runner_def)
  have p3: "resolveFilename (node ?e) ''/proj/bad.css'' ''/proj/bad.css'' = Inr ''/proj/bad.css''"
    by code_simp
  have m3: "\<not> truthy (cache_get fresh ''/proj/bad.css'')"
    by (simp add: fresh_def setup_state_def cache_get_def)
  have ev: "map_option fst (fetch 4 ?e fresh ''/proj/bad.css'' ''/proj/bad.css'') =
     Some (Inl (FileNotFound ''/proj/missing.css''))"
    by code_simp
  have ch: "tokensByFile (snd (the (fetch 4 ?e fresh ''/proj/bad.css'' ''/proj/bad.css''))) ''/proj/a.css''
              \<noteq> tokensByFile fresh ''/proj/a.css''"
    by code_simp
  from failed_fetch_propagates_and_stores_nothing[OF p1 m1, of 0] rd
  have a: "fetch 1 ?e fresh ''/proj/none.css'' ''/proj/none.css'' =
     Some (Inl (FileNotFound ''/proj/none.css''),
           emit (ReadFile ''/proj/none.css'') (emit (FetchFromFs ''/proj/none.css'') fresh))"
    by simp
  from failed_fetch_propagates_and_stores_nothing[OF p2 m2, of 0] rs th
  have b: "fetch 2 ?e fresh ''/proj/broken.css'' ''/proj/broken.css'' =
     Some (Inl (TransformationError ''Unclosed block''),
           emit (Process ''/proj/broken.css'')
             (emit (ReadFile ''/proj/broken.css'') (emit (FetchFromFs ''/proj/broken.css'') fresh)))"
    by (simp add: numeral_2_eq_2)
  have f3: "fetch (Suc 3) ?e fresh ''/proj/bad.css'' ''/proj/bad.css'' =
     Some (Inl (FileNotFound ''/proj/missing.css''),
           snd (the (fetch 4 ?e fresh ''/proj/bad.css'' ''/proj/bad.css'')))"
    using fetched[OF ev] by simp
  from failed_fetch_propagates_and_stores_nothing[OF p3 m3, of 3] f3 ch
  have c: "fs_count ''/proj/a.css'' fresh + 1 \<le>
     fs_count ''/proj/a.css'' (snd (the (fetch 4 ?e fresh ''/proj/bad.css'' ''/proj/bad.css'')))"
    by fastforce
  from p1 m1 rd a p2 m2 rs th b p3 m3 ev ch c show ?thesis by blast
qed

text \<open>
  C7 as stated fails when an import fails after another import has been fetched:
  \<open>bad.css\<close> composes from \<open>a.css\<close> and then from a file that does not exist. The
  fetch of \<open>bad.css\<close> fails with the error of the missing file, there is no entry for
  \<open>bad.css\<close>, and the token cache, empty before, holds the entry of \<open>a.css\<close>.
\<close>

theorem failed_fetch_keeps_import_counterexample:
  "tokensByFile fresh ''/proj/a.css'' = None \<and>
   map_option (\<lambda>(r, s'). (r, tokensByFile s' ''/proj/a.css'', tokensByFile s' ''/proj/bad.css''))
     (fetch 4 (project_env False) fresh ''/proj/bad.css'' ''/proj/bad.css'') =
   Some (Inl (FileNotFound ''/proj/missing.css''),
         Some (Obj 0 [(''title'', Str ''_a_title'')]), None)"
  by code_simp

subsection \<open>C8: reads through the proxy in debug mode\<close>

text \<open>
  C8 says that in debug mode a proxy fetches at most once. The get trap answers from
  its snapshot only when the snapshot's value for the key is truthy; the read of a key
  the mapping lacks goes on to the test of the token cache, which debug mode never
  fills, and fetches again. Four reads on one proxy of \<open>a.css\<close>, two of
  \<^verbatim>\<open>title\<close> and two of a key the file does not define, start the runner
  three times.
\<close>

theorem debug_proxy_missing_key_fetches_again:
  "map_option (\<lambda>(rs, t, s). (rs, process_count ''/proj/a.css'' s))
     (proxy_reads 2 (project_env True) ''/proj/a.css'' new_target fresh
        [Name ''title'', Name ''title'', Name ''missing'', Name ''missing'']) =
   Some ([Inr (Str ''_a_title''), Inr (Str ''_a_title''), Inr Undefined, Inr Undefined], 3)"
  by code_simp

subsection \<open>C9: resolving a specifier\<close>

text \<open>
  C9, as amended: a specifier whose first character is one of
  \<^verbatim>\<open>\ / ? % * : | " < > .\<close> is resolved against the directory of the
  referencing file; every other specifier, the empty one and a path that starts with a
  drive letter included, is resolved by \<^verbatim>\<open>require.resolve\<close>.
\<close>

theorem resolveFilename_by_first_character:
  "resolveFilename h to frm =
     (if to \<noteq> [] \<and>
         hd to \<in> {CHR 0x5C, CHR ''/'', CHR ''?'', CHR ''%'', CHR ''*'', CHR '':'', CHR ''|'',
                  CHR 0x22, CHR ''<'', CHR ''>'', CHR ''.''}
      then Inr (path_resolve h (dirname h frm) to)
      else require_resolve h to)"
  by (cases to) (auto simp: resolveFilename_def first_char_test_def marker_chars_def)

text \<open>
  C9 as stated fails for a specifier that starts with \<^verbatim>\<open>%\<close>: it is resolved
  against the directory of the referencing file, and \<^verbatim>\<open>require.resolve\<close>,
  which would have thrown, is not asked.
\<close>

theorem resolveFilename_percent_counterexample:
  "resolveFilename project_host ''%theme.css'' ''/proj/a.css'' = Inr ''/proj/%theme.css'' \<and>
   require_resolve project_host ''%theme.css'' = Inl (ModuleNotFound ''%theme.css'')"
  by code_simp

subsection \<open>C10: the token cache in debug mode\<close>

text \<open>
  C10: in debug mode a fetch, successful or not, leaves the token cache exactly as it
  found it, and a successful fetch of a path the cache has no entry for leaves the
  loader's cache without an entry for that path.
\<close>

theorem debug_fetch_leaves_token_cache:
  assumes "debugMode e" and "fetch n e s to frm = Some (r, s')"
    and "resolveFilename (node e) to frm = Inr p"
  shows "tokensByFile s' = tokensByFile s \<and>
         (\<forall>tokens. r = Inr tokens \<longrightarrow> tokensByFile s p = None \<longrightarrow> requireCache s' p = None)"
proof (intro conjI allI impI)
  show "tokensByFile s' = tokensByFile s"
    using debug_cache_kept[OF assms(1), of n] assms(2) by blast
next
  fix tokens
  assume r: "r = Inr tokens" and none: "tokensByFile s p = None"
  from assms(2) obtain k where n: "n = Suc k" by (rule fetch_returns_Suc)
  have miss: "\<not> truthy (cache_get s p)" using none by (simp add: cache_get_None)
  from fetch_miss_cases[OF assms(2)[unfolded n] assms(3) miss] r
  obtain res s2 where "finish e p res s2 = (Inr tokens, s')" by auto
  from finish_delete_debug[OF this assms(1)] show "requireCache s' p = None" .
qed

text \<open>The theorem on \<open>a.css\<close>, which the loader had in its cache.\<close>

theorem debug_fetch_leaves_token_cache_witness:
  "debugMode (project_env True) \<and>
   map_option fst (fetch 2 (project_env True) loaded ''/proj/a.css'' ''/proj/a.css'') =
     Some (Inr (Obj 1 [(''title'', Str ''_a_title'')])) \<and>
   resolveFilename (node (project_env True)) ''/proj/a.css'' ''/proj/a.css'' = Inr ''/proj/a.css'' \<and>
   tokensByFile loaded ''/proj/a.css'' = None \<and>
   requireCache loaded ''/proj/a.css'' \<noteq> None \<and>
   tokensByFile (snd (the (fetch 2 (project_env True) loaded ''/proj/a.css'' ''/proj/a.css''))) =
     tokensByFile loaded \<and>
   requireCache (snd (the (fetch 2 (project_env True) loaded ''/proj/a.css'' ''/proj/a.css'')))
     ''/proj/a.css'' = None"
proof -
  have dbg: "debugMode (project_env True)" by code_simp
  have p: "resolveFilename (node (project_env True)) ''/proj/a.css'' ''/proj/a.css'' = Inr ''/proj/a.css''"
    by code_simp
  have none: "tokensByFile loaded ''/proj/a.css'' = None"
    by (simp add: loaded_def setup_state_def)
  have some: "requireCache loaded ''/proj/a.css'' \<noteq> None"
    by (simp add: loaded_def setup_state_def)
  have ev: "map_option fst (fetch 2 (project_env True) loaded ''/proj/a.css'' ''/proj/a.css'') =
     Some (Inr (Obj 1 [(''title'', Str ''_a_title'')]))"
    by code_simp
  from debug_fetch_leaves_token_cache[OF dbg fetched[OF ev] p] dbg p none some ev
  show ?thesis by simp
qed

end
